theory Spec2Isabelle
  imports Complex_Main "HOL-Library.Sublist"
begin

section \<open>Batch task manager\<close>

text \<open>
  The class \<open>BatchTask\<close> and the function \<open>createTaskSSEStream\<close>. JavaScript numbers
  are modelled as integers, opaque JSON payloads (\<open>item\<close>, \<open>detail\<close>, \<open>result\<close>) as their
  serialised text. An optional property is an \<open>option\<close>; the \<open>warning\<close> of an event can be
  absent, \<open>null\<close> or a string, hence \<open>string option option\<close>.
\<close>

type_synonym json = string

datatype BatchTaskStatus = Running | Done | Error | Cancelled

datatype BatchTaskEventType = TProgress | TDone | TError | TCancelled

record BatchTaskEvent =
  ev_type :: BatchTaskEventType
  ev_task_id :: string
  ev_total :: int
  ev_processed :: int
  ev_ok :: int
  ev_fail :: int
  ev_item :: "json option"
  ev_detail :: "json option"
  ev_error :: "string option"
  ev_warning :: "string option option"
  ev_result :: "json option"

record BatchTaskSnapshot =
  snap_task_id :: string
  snap_status :: BatchTaskStatus
  snap_total :: int
  snap_processed :: int
  snap_ok :: int
  snap_fail :: int
  snap_warning :: "string option"

text \<open>
  The subscribers of a task are closures over a stream controller. The only subscriber
  this repository registers is the one of \<open>createTaskSSEStream\<close>, so the set of
  callbacks is the list (in insertion order, as a JavaScript \<open>Set\<close> iterates) of the
  streams that are subscribed, and the streams live in a store beside the task.
\<close>

record BatchTask =
  task_id :: string
  task_total :: int
  createdAt :: int
  processed :: int
  ok :: int
  fail :: int
  task_status :: BatchTaskStatus
  task_warning :: "string option"
  task_result :: "json option"
  task_error :: "string option"
  cancelled :: bool
  finalEvent :: "BatchTaskEvent option"
  callbacks :: "nat list"

datatype sse_msg = MsgInit BatchTaskSnapshot | MsgEvent BatchTaskEvent

record sse_stream =
  chunks :: "sse_msg list"
  stream_closed :: bool

record world =
  task :: BatchTask
  streams :: "sse_stream list"

text \<open>The constructor; the id (a fresh UUID without dashes) and the clock are inputs.\<close>

definition BatchTask_new :: "string \<Rightarrow> int \<Rightarrow> int \<Rightarrow> BatchTask" where
  "BatchTask_new uuid n now =
     \<lparr>task_id = uuid, task_total = max 0 n, createdAt = now,
      processed = 0, ok = 0, fail = 0, task_status = Running, task_warning = None,
      task_result = None, task_error = None, cancelled = False, finalEvent = None,
      callbacks = []\<rparr>"

definition createTask :: "string \<Rightarrow> int \<Rightarrow> int \<Rightarrow> world" where
  "createTask uuid n now = \<lparr>task = BatchTask_new uuid n now, streams = []\<rparr>"

definition snapshot :: "BatchTask \<Rightarrow> BatchTaskSnapshot" where
  "snapshot t =
     \<lparr>snap_task_id = task_id t, snap_status = task_status t, snap_total = task_total t,
      snap_processed = processed t, snap_ok = ok t, snap_fail = fail t,
      snap_warning = task_warning t\<rparr>"

definition subscribe :: "nat \<Rightarrow> world \<Rightarrow> world" where
  "subscribe sid w =
     (if sid \<in> set (callbacks (task w)) then w
      else w\<lparr>task := (task w)\<lparr>callbacks := callbacks (task w) @ [sid]\<rparr>\<rparr>)"

definition unsubscribe :: "nat \<Rightarrow> world \<Rightarrow> world" where
  "unsubscribe sid w = w\<lparr>task := (task w)\<lparr>callbacks := removeAll sid (callbacks (task w))\<rparr>\<rparr>"

definition enqueue :: "nat \<Rightarrow> sse_msg \<Rightarrow> world \<Rightarrow> world" where
  "enqueue sid m w =
     w\<lparr>streams := (streams w)[sid := (streams w ! sid)\<lparr>chunks := chunks (streams w ! sid) @ [m]\<rparr>]\<rparr>"

definition close_stream :: "nat \<Rightarrow> world \<Rightarrow> world" where
  "close_stream sid w = w\<lparr>streams := (streams w)[sid := (streams w ! sid)\<lparr>stream_closed := True\<rparr>]\<rparr>"

definition is_final_type :: "BatchTaskEventType \<Rightarrow> bool" where
  "is_final_type ty = (ty = TDone \<or> ty = TError \<or> ty = TCancelled)"

text \<open>
  The callback \<open>createTaskSSEStream\<close> subscribes: it writes the event, and on a final
  event unsubscribes and closes. \<open>controller.enqueue\<close> throws on a stream that is already
  closed, and the \<open>catch\<close> unsubscribes.
\<close>

definition sse_callback :: "nat \<Rightarrow> BatchTaskEvent \<Rightarrow> world \<Rightarrow> world" where
  "sse_callback sid event w =
     (if \<not> sid < length (streams w) then w
      else if stream_closed (streams w ! sid) then unsubscribe sid w
      else if is_final_type (ev_type event)
        then close_stream sid (unsubscribe sid (enqueue sid (MsgEvent event) w))
        else enqueue sid (MsgEvent event) w)"

text \<open>
  \<open>_publish\<close>: the loop over the set of callbacks. A callback that was deleted before its
  turn is not called.
\<close>

fun publish_to :: "nat list \<Rightarrow> BatchTaskEvent \<Rightarrow> world \<Rightarrow> world" where
  "publish_to [] event w = w"
| "publish_to (sid # sids) event w =
     publish_to sids event
       (if sid \<in> set (callbacks (task w)) then sse_callback sid event w else w)"

definition publish :: "BatchTaskEvent \<Rightarrow> world \<Rightarrow> world" where
  "publish event w = publish_to (callbacks (task w)) event w"

definition truthy_string :: "string option \<Rightarrow> string option" where
  "truthy_string s = (case s of None \<Rightarrow> None | Some e \<Rightarrow> if e = [] then None else Some e)"

definition task_record :: "bool \<Rightarrow> json option \<Rightarrow> json option \<Rightarrow> string option \<Rightarrow> world \<Rightarrow> world" where
  "task_record is_ok item detail err w =
     (let t1 = (task w)\<lparr>processed := processed (task w) + 1\<rparr>;
          t2 = (if is_ok then t1\<lparr>ok := ok t1 + 1\<rparr> else t1\<lparr>fail := fail t1 + 1\<rparr>);
          event = \<lparr>ev_type = TProgress, ev_task_id = task_id t2, ev_total = task_total t2,
                   ev_processed = processed t2, ev_ok = ok t2, ev_fail = fail t2,
                   ev_item = item, ev_detail = detail, ev_error = truthy_string err,
                   ev_warning = None, ev_result = None\<rparr>
      in publish event (w\<lparr>task := t2\<rparr>))"

definition finish :: "json \<Rightarrow> string option \<Rightarrow> world \<Rightarrow> world" where
  "finish res warn w =
     (let t1 = (task w)\<lparr>task_status := Done, task_result := Some res, task_warning := warn\<rparr>;
          event = \<lparr>ev_type = TDone, ev_task_id = task_id t1, ev_total = task_total t1,
                   ev_processed = processed t1, ev_ok = ok t1, ev_fail = fail t1,
                   ev_item = None, ev_detail = None, ev_error = None,
                   ev_warning = Some (task_warning t1), ev_result = Some res\<rparr>
      in publish event (w\<lparr>task := t1\<lparr>finalEvent := Some event\<rparr>\<rparr>))"

definition failTask :: "string \<Rightarrow> world \<Rightarrow> world" where
  "failTask err w =
     (let t1 = (task w)\<lparr>task_status := Error, task_error := Some err\<rparr>;
          event = \<lparr>ev_type = TError, ev_task_id = task_id t1, ev_total = task_total t1,
                   ev_processed = processed t1, ev_ok = ok t1, ev_fail = fail t1,
                   ev_item = None, ev_detail = None, ev_error = Some err,
                   ev_warning = None, ev_result = None\<rparr>
      in publish event (w\<lparr>task := t1\<lparr>finalEvent := Some event\<rparr>\<rparr>))"

definition cancel :: "world \<Rightarrow> world" where
  "cancel w = w\<lparr>task := (task w)\<lparr>cancelled := True\<rparr>\<rparr>"

definition finishCancelled :: "world \<Rightarrow> world" where
  "finishCancelled w =
     (let t1 = (task w)\<lparr>task_status := Cancelled\<rparr>;
          event = \<lparr>ev_type = TCancelled, ev_task_id = task_id t1, ev_total = task_total t1,
                   ev_processed = processed t1, ev_ok = ok t1, ev_fail = fail t1,
                   ev_item = None, ev_detail = None, ev_error = None,
                   ev_warning = None, ev_result = None\<rparr>
      in publish event (w\<lparr>task := t1\<lparr>finalEvent := Some event\<rparr>\<rparr>))"

text \<open>
  \<open>createTaskSSEStream\<close>: the new stream gets the next free place of the store, which is
  returned with the new world. A truthy \<open>task.finalEvent\<close> is an event object.
\<close>

definition createTaskSSEStream :: "world \<Rightarrow> nat \<times> world" where
  "createTaskSSEStream w =
     (let sid = length (streams w);
          w1 = w\<lparr>streams := streams w @ [\<lparr>chunks = [MsgInit (snapshot (task w))], stream_closed = False\<rparr>]\<rparr>
      in case finalEvent (task w) of
           Some fe \<Rightarrow> (sid, close_stream sid (enqueue sid (MsgEvent fe) w1))
         | None \<Rightarrow> (sid, subscribe sid w1))"

text \<open>A caller of the task: any sequence of method calls and new SSE subscriptions.\<close>

datatype task_call =
    CallRecord bool "json option" "json option" "string option"
  | CallFinish json "string option"
  | CallFailTask string
  | CallCancel
  | CallFinishCancelled
  | CallCreateSSEStream

fun call :: "world \<Rightarrow> task_call \<Rightarrow> world" where
  "call w (CallRecord is_ok item detail err) = task_record is_ok item detail err w"
| "call w (CallFinish res warn) = finish res warn w"
| "call w (CallFailTask err) = failTask err w"
| "call w CallCancel = cancel w"
| "call w CallFinishCancelled = finishCancelled w"
| "call w CallCreateSSEStream = snd (createTaskSSEStream w)"

definition calls :: "task_call list \<Rightarrow> world \<Rightarrow> world" where
  "calls cs w = foldl call w cs"

text \<open>Predicates used to state the properties of the batch task manager.\<close>

fun msg_counts_consistent :: "sse_msg \<Rightarrow> bool" where
  "msg_counts_consistent (MsgInit s) = (snap_processed s = snap_ok s + snap_fail s)"
| "msg_counts_consistent (MsgEvent e) = (ev_processed e = ev_ok e + ev_fail e)"

definition streams_consistent :: "world \<Rightarrow> bool" where
  "streams_consistent w = list_all (\<lambda>s. list_all msg_counts_consistent (chunks s)) (streams w)"

definition task_consistent :: "BatchTask \<Rightarrow> bool" where
  "task_consistent t =
     (processed t = ok t + fail t \<and> (finalEvent t \<noteq> None) = (task_status t \<noteq> Running)
      \<and> (case finalEvent t of None \<Rightarrow> True | Some fe \<Rightarrow> ev_processed fe = ev_ok fe + ev_fail fe))"

definition task_data :: "BatchTask \<Rightarrow> BatchTask" where
  "task_data t = t\<lparr>callbacks := []\<rparr>"

definition world_consistent :: "world \<Rightarrow> bool" where
  "world_consistent w = (task_consistent (task w) \<and> streams_consistent w)"

definition detached :: "nat \<Rightarrow> sse_stream \<Rightarrow> world \<Rightarrow> bool" where
  "detached sid st w =
     (sid < length (streams w) \<and> streams w ! sid = st \<and> sid \<notin> set (callbacks (task w)))"

definition callbacks_in_store :: "world \<Rightarrow> bool" where
  "callbacks_in_store w = list_all (\<lambda>sid. sid < length (streams w)) (callbacks (task w))"



section \<open>Tag filter\<close>

text \<open>
  The class \<open>TagFilter\<close>. A string is a list of characters and the scan goes through
  it one character at a time, as the source indexes \<open>token[i]\<close>. \<open>startsWith\<close> is
  \<open>prefix\<close>, \<open>endsWith\<close> is \<open>suffix\<close> and \<open>includes\<close> is \<open>sublist\<close>.
\<close>

record TagFilter =
  tags :: "string list"
  inFilterTag :: bool
  tagBuffer :: string
  pendingPrefix :: string

text \<open>The constructor keeps the non-empty tag names (\<open>filterTags.filter(Boolean)\<close>).\<close>

definition TagFilter_new :: "string list \<Rightarrow> TagFilter" where
  "TagFilter_new filterTags =
     \<lparr>tags = filter (\<lambda>t. t \<noteq> []) filterTags, inFilterTag = False, tagBuffer = [],
      pendingPrefix = []\<rparr>"

text \<open>
  The loop over the tags that compares the pending prefix with every open tag; it
  returns \<open>(anyMatch, fullMatch)\<close> and stops at the first full match.
\<close>

fun match_open_tags :: "string list \<Rightarrow> string \<Rightarrow> bool \<Rightarrow> bool \<times> bool" where
  "match_open_tags [] pending anyMatch = (anyMatch, False)"
| "match_open_tags (tag # rest) pending anyMatch =
     (if prefix (CHR ''<'' # tag) pending
      then (anyMatch \<or> prefix pending (CHR ''<'' # tag), True)
      else match_open_tags rest pending (anyMatch \<or> prefix pending (CHR ''<'' # tag)))"

text \<open>The loop that looks for an end tag of any configured tag in the tag buffer.\<close>

fun has_end_tag :: "string list \<Rightarrow> string \<Rightarrow> bool" where
  "has_end_tag [] buf = False"
| "has_end_tag (tag # rest) buf =
     (if sublist (''</'' @ tag @ ''>'') buf then True else has_end_tag rest buf)"

text \<open>One round of the \<open>while\<close> loop of \<open>filter\<close>: the new state and the text added to \<open>result\<close>.\<close>

definition filter_char :: "TagFilter \<Rightarrow> char \<Rightarrow> TagFilter \<times> string" where
  "filter_char f c =
     (if pendingPrefix f \<noteq> [] then
        (case match_open_tags (tags f) (pendingPrefix f @ [c]) False of
           (anyMatch, fullMatch) \<Rightarrow>
             if fullMatch
             then (f\<lparr>inFilterTag := True, tagBuffer := pendingPrefix f @ [c], pendingPrefix := []\<rparr>, [])
             else if \<not> anyMatch then (f\<lparr>pendingPrefix := []\<rparr>, pendingPrefix f @ [c])
             else (f\<lparr>pendingPrefix := pendingPrefix f @ [c]\<rparr>, []))
      else if inFilterTag f then
        (if c = CHR ''>'' then
           (if suffix ''/>'' (tagBuffer f @ [c])
            then (f\<lparr>inFilterTag := False, tagBuffer := []\<rparr>, [])
            else if has_end_tag (tags f) (tagBuffer f @ [c])
            then (f\<lparr>inFilterTag := False, tagBuffer := []\<rparr>, [])
            else (f\<lparr>tagBuffer := tagBuffer f @ [c]\<rparr>, []))
         else (f\<lparr>tagBuffer := tagBuffer f @ [c]\<rparr>, []))
      else if c = CHR ''<'' then (f\<lparr>pendingPrefix := ''<''\<rparr>, [])
      else (f, [c]))"

fun filter_chars :: "TagFilter \<Rightarrow> string \<Rightarrow> string \<Rightarrow> TagFilter \<times> string" where
  "filter_chars f [] result = (f, result)"
| "filter_chars f (c # cs) result =
     (case filter_char f c of (f', out) \<Rightarrow> filter_chars f' cs (result @ out))"

definition TagFilter_filter :: "TagFilter \<Rightarrow> string \<Rightarrow> TagFilter \<times> string" where
  "TagFilter_filter f token = (if tags f = [] then (f, token) else filter_chars f token [])"

definition TagFilter_reset :: "TagFilter \<Rightarrow> TagFilter" where
  "TagFilter_reset f = f\<lparr>inFilterTag := False, tagBuffer := [], pendingPrefix := []\<rparr>"

definition TagFilter_flush :: "TagFilter \<Rightarrow> TagFilter \<times> string" where
  "TagFilter_flush f = (f\<lparr>pendingPrefix := []\<rparr>, pendingPrefix f)"

definition filterTagsFromContent :: "string \<Rightarrow> string list \<Rightarrow> string" where
  "filterTagsFromContent content filterTags =
     (if filterTags = [] then content
      else case TagFilter_filter (TagFilter_new filterTags) content of
             (f, out) \<Rightarrow> out @ snd (TagFilter_flush f))"

text \<open>
  A caller that passes the tokens of a stream to one filter in order; the result is the
  filter afterwards and the concatenation of what \<open>filter\<close> returned.
\<close>

fun filter_tokens :: "TagFilter \<Rightarrow> string list \<Rightarrow> TagFilter \<times> string" where
  "filter_tokens f [] = (f, [])"
| "filter_tokens f (token # rest) =
     (case TagFilter_filter f token of
        (f1, out1) \<Rightarrow> (case filter_tokens f1 rest of (f2, out2) \<Rightarrow> (f2, out1 @ out2)))"

text \<open>What holds of a filter between two characters.\<close>

definition filter_inv :: "TagFilter \<Rightarrow> bool" where
  "filter_inv f =
     (tags f \<noteq> [] \<and> [] \<notin> set (tags f) \<and>
      (pendingPrefix f = [] \<or>
         (\<not> inFilterTag f \<and> (\<exists>t\<in>set (tags f). strict_prefix (pendingPrefix f) (CHR ''<'' # t)))))"

section \<open>Settings store\<close>

text \<open>
  The \<open>grok\<close> section of the settings: its defaults, \<open>stripCfPrefix\<close>,
  \<open>normalizeCfCookie\<close>, and what \<open>getSettings\<close> and \<open>saveSettings\<close> do with the property
  \<open>cf_clearance\<close> of this section. Both functions set this property explicitly, after
  the object spreads that carry the other properties; the spreads, the other five
  sections and \<open>normalizeImageGenerationMethod\<close> are left out. A property that a
  settings object need not have is an \<open>option\<close>; numbers are integers.

  \<open>String.prototype.trim\<close> belongs to the runtime and is a parameter of the model
  (\<open>js_trim\<close>), so that nothing is assumed about the characters it removes.
\<close>

record GrokSettings =
  api_key :: "string option"
  proxy_url :: "string option"
  proxy_pool_url :: "string option"
  proxy_pool_interval :: "int option"
  cache_proxy_url :: "string option"
  cf_clearance :: "string option"
  x_statsig_id :: "string option"
  dynamic_statsig :: "bool option"
  filtered_tags :: "string option"
  show_thinking :: "bool option"
  temporary :: "bool option"
  video_poster_preview :: "bool option"
  stream_first_response_timeout :: "int option"
  stream_chunk_timeout :: "int option"
  stream_total_timeout :: "int option"
  stream_idle_timeout :: "int option"
  video_idle_timeout :: "int option"
  retry_status_codes :: "int list option"
  image_generation_method :: "string option"

definition DEFAULTS_grok :: GrokSettings where
  "DEFAULTS_grok =
     \<lparr>api_key = Some [], proxy_url = Some [], proxy_pool_url = Some [],
      proxy_pool_interval = Some 300, cache_proxy_url = Some [], cf_clearance = Some [],
      x_statsig_id = Some [], dynamic_statsig = Some True,
      filtered_tags = Some ''xaiartifact,xai:tool_usage_card'', show_thinking = Some True,
      temporary = Some False, video_poster_preview = Some False,
      stream_first_response_timeout = Some 30, stream_chunk_timeout = Some 120,
      stream_total_timeout = Some 600, stream_idle_timeout = Some 45,
      video_idle_timeout = Some 90, retry_status_codes = Some [401, 429, 403],
      image_generation_method = Some ''legacy''\<rparr>"

definition stripCfPrefix :: "(string \<Rightarrow> string) \<Rightarrow> string \<Rightarrow> string" where
  "stripCfPrefix js_trim v =
     (let trimmed = js_trim v
      in if trimmed = [] then []
         else if prefix ''cf_clearance='' trimmed then drop (length ''cf_clearance='') trimmed
         else trimmed)"


text \<open>
  The property \<open>cf_clearance\<close> of a value that is not typed: it is missing, \<open>null\<close> or
  \<open>undefined\<close> (what \<open>??\<close> replaces), or a string, or a value of another type, on which
  \<open>value.trim()\<close> throws a \<open>TypeError\<close>.
\<close>

datatype json_prop = Absent | Text string | Other

datatype error = TypeError

text \<open>
  The row of the table \<open>settings\<close> with the key \<open>grok\<close>: there is none or its value is
  empty (falsy); or its value is not JSON (\<open>safeParseJson\<close> falls back to the
  defaults); or it is the JSON \<open>null\<close>, whose properties cannot be read; or it is the
  JSON of another value, given by its property \<open>cf_clearance\<close>.
\<close>

datatype grok_row = NoRow | NotJson | JsonNull | Json json_prop

text \<open>
  \<open>(await getSettings(env)).grok.cf_clearance\<close>, which is
  \<open>stripCfPrefix(grokCfg.cf_clearance ?? "")\<close>.
\<close>

definition getSettings_cf_clearance :: "(string \<Rightarrow> string) \<Rightarrow> grok_row \<Rightarrow> error + string" where
  "getSettings_cf_clearance js_trim row =
     (case row of
        JsonNull \<Rightarrow> Inl TypeError
      | Json Other \<Rightarrow> Inl TypeError
      | Json (Text v) \<Rightarrow> Inr (stripCfPrefix js_trim v)
      | Json Absent \<Rightarrow> Inr (stripCfPrefix js_trim [])
      | _ \<Rightarrow> Inr (stripCfPrefix js_trim
                 (case cf_clearance DEFAULTS_grok of Some v \<Rightarrow> v | None \<Rightarrow> [])))"

text \<open>
  \<open>saveSettings\<close> returns the row it upserts; the argument is
  \<open>updates.grok_config?.cf_clearance\<close>. The new row has
  \<open>cf_clearance: stripCfPrefix(updates.grok_config?.cf_clearance ?? current.grok.cf_clearance ?? "")\<close>.
  A failure of the database is not modelled.
\<close>

definition saveSettings_grok ::
  "(string \<Rightarrow> string) \<Rightarrow> grok_row \<Rightarrow> json_prop \<Rightarrow> error + grok_row" where
  "saveSettings_grok js_trim row update_cf_clearance =
     (case getSettings_cf_clearance js_trim row of
        Inl e \<Rightarrow> Inl e
      | Inr current_cf_clearance \<Rightarrow>
          (case update_cf_clearance of
             Other \<Rightarrow> Inl TypeError
           | Text v \<Rightarrow> Inr (Json (Text (stripCfPrefix js_trim v)))
           | Absent \<Rightarrow> Inr (Json (Text (stripCfPrefix js_trim current_cf_clearance)))))"

text \<open>
  A \<open>trim\<close> for the examples, whose strings are ASCII: it removes the six ASCII white
  space characters, which are the ASCII characters that \<open>String.prototype.trim\<close> removes.
\<close>

definition is_space :: "char \<Rightarrow> bool" where
  "is_space c = (c \<in> set [CHR 0x09, CHR 0x0A, CHR 0x0B, CHR 0x0C, CHR 0x0D, CHR '' ''])"

definition ascii_trim :: "string \<Rightarrow> string" where
  "ascii_trim s = rev (dropWhile is_space (rev (dropWhile is_space s)))"

section \<open>Request statistics\<close>

text \<open>
  \<open>getRequestStats\<close>. A log row is the pair of columns that the statistics query selects,
  and the table \<open>request_logs\<close> is a list of rows. \<open>toIsoHourKey\<close> and \<open>toIsoDateKey\<close> print
  the UTC hour and the UTC day of a timestamp in milliseconds; two timestamps get the
  same key exactly when they lie in the same hour (day), so a key is modelled as the
  number of the hour (day) since the epoch. The counters are natural numbers. The
  expression \<open>Math.round((success / total) * 1000) / 10\<close> is evaluated in double
  arithmetic, which is not modelled: its value for the two counters is a parameter of
  the model (\<open>round_rate\<close>). The separate query for the \<open>models\<close> list is left out.
\<close>

record RequestLogRow =
  log_timestamp :: int
  log_status :: int

record Counts =
  success :: nat
  failed :: nat

record Summary =
  summary_total :: nat
  summary_success :: nat
  summary_failed :: nat
  summary_success_rate :: rat

record RequestStats =
  hourly :: "(string \<times> nat \<times> nat) list"
  daily :: "(int \<times> nat \<times> nat) list"
  summary :: Summary

text \<open>The state of the single pass over the rows: the two maps and the two counters.\<close>

record Scan =
  hourlyMap :: "int \<rightharpoonup> Counts"
  dailyMap :: "int \<rightharpoonup> Counts"
  scan_success :: nat
  scan_failed :: nat

definition isSuccessStatus :: "int \<Rightarrow> bool" where
  "isSuccessStatus st = (200 \<le> st \<and> st < 400)"

definition toIsoHourKey :: "int \<Rightarrow> int" where
  "toIsoHourKey ts = ts div (60 * 60 * 1000)"

definition toIsoDateKey :: "int \<Rightarrow> int" where
  "toIsoDateKey ts = ts div (24 * 60 * 60 * 1000)"

definition getUTCHours :: "int \<Rightarrow> nat" where
  "getUTCHours ts = nat ((ts div (60 * 60 * 1000)) mod 24)"

definition pad2 :: "nat \<Rightarrow> string" where
  "pad2 n = (if n < 10 then [CHR ''0'', char_of (48 + n)]
             else [char_of (48 + n div 10), char_of (48 + n mod 10)])"

definition or_zero :: "Counts option \<Rightarrow> Counts" where
  "or_zero c = (case c of Some v \<Rightarrow> v | None \<Rightarrow> \<lparr>success = 0, failed = 0\<rparr>)"

definition count_in :: "bool \<Rightarrow> Counts \<Rightarrow> Counts" where
  "count_in isSuccess cur =
     (if isSuccess then cur\<lparr>success := success cur + 1\<rparr> else cur\<lparr>failed := failed cur + 1\<rparr>)"

text \<open>The body of the loop over \<open>last14\<close>.\<close>

definition scan_row :: "int \<Rightarrow> Scan \<Rightarrow> RequestLogRow \<Rightarrow> Scan" where
  "scan_row since24h s r =
     (let isSuccess = isSuccessStatus (log_status r);
          dayKey = toIsoDateKey (log_timestamp r);
          s1 = s\<lparr>dailyMap := (dailyMap s)(dayKey \<mapsto> count_in isSuccess (or_zero (dailyMap s dayKey)))\<rparr>
      in if log_timestamp r \<ge> since24h then
           (let hourKey = toIsoHourKey (log_timestamp r);
                s2 = s1\<lparr>hourlyMap :=
                       (hourlyMap s1)(hourKey \<mapsto> count_in isSuccess (or_zero (hourlyMap s1 hourKey)))\<rparr>
            in if isSuccess then s2\<lparr>scan_success := scan_success s2 + 1\<rparr>
               else s2\<lparr>scan_failed := scan_failed s2 + 1\<rparr>)
         else s1)"

text \<open>The query: the rows of the last 14 days in the order of their timestamps.\<close>

definition last14_rows :: "int \<Rightarrow> RequestLogRow list \<Rightarrow> RequestLogRow list" where
  "last14_rows now tbl =
     sort_key log_timestamp
       (filter (\<lambda>r. log_timestamp r \<ge> now - 14 * 24 * 60 * 60 * 1000) tbl)"

definition scan_logs :: "int \<Rightarrow> RequestLogRow list \<Rightarrow> Scan" where
  "scan_logs now tbl =
     foldl (scan_row (now - 24 * 60 * 60 * 1000))
       \<lparr>hourlyMap = Map.empty, dailyMap = Map.empty, scan_success = 0, scan_failed = 0\<rparr>
       (last14_rows now tbl)"

text \<open>\<open>total > 0 ? Math.round((success / total) * 1000) / 10 : 0\<close>.\<close>

definition success_rate_of :: "(nat \<Rightarrow> nat \<Rightarrow> rat) \<Rightarrow> nat \<Rightarrow> nat \<Rightarrow> rat" where
  "success_rate_of round_rate n_success n_total =
     (if n_total > 0 then round_rate n_success n_total else 0)"

definition getRequestStats ::
  "(nat \<Rightarrow> nat \<Rightarrow> rat) \<Rightarrow> int \<Rightarrow> RequestLogRow list \<Rightarrow> RequestStats" where
  "getRequestStats round_rate now tbl =
     (let s = scan_logs now tbl;
          startHour = now - 23 * 60 * 60 * 1000;
          startDay = now - 13 * 24 * 60 * 60 * 1000;
          n_total = scan_success s + scan_failed s
      in \<lparr>hourly = map (\<lambda>i. let ts = startHour + int i * 60 * 60 * 1000;
                                  v = or_zero (hourlyMap s (toIsoHourKey ts))
                              in (pad2 (getUTCHours ts) @ '':00'', success v, failed v)) [0..<24],
          daily = map (\<lambda>i. let ts = startDay + int i * 24 * 60 * 60 * 1000;
                                 v = or_zero (dailyMap s (toIsoDateKey ts))
                             in (toIsoDateKey ts, success v, failed v)) [0..<14],
          summary = \<lparr>summary_total = n_total, summary_success = scan_success s,
                     summary_failed = scan_failed s,
                     summary_success_rate = success_rate_of round_rate (scan_success s) n_total\<rparr>\<rparr>)"

text \<open>What the statistics are compared with: the rows of a time window, counted.\<close>

definition rows_since :: "int \<Rightarrow> RequestLogRow list \<Rightarrow> RequestLogRow list" where
  "rows_since t tbl = filter (\<lambda>r. log_timestamp r \<ge> t) tbl"

definition n_successes :: "RequestLogRow list \<Rightarrow> nat" where
  "n_successes rows = length (filter (\<lambda>r. isSuccessStatus (log_status r)) rows)"

definition n_failures :: "RequestLogRow list \<Rightarrow> nat" where
  "n_failures rows = length (filter (\<lambda>r. \<not> isSuccessStatus (log_status r)) rows)"

definition rows_of_day :: "int \<Rightarrow> RequestLogRow list \<Rightarrow> RequestLogRow list" where
  "rows_of_day k rows = filter (\<lambda>r. toIsoDateKey (log_timestamp r) = k) rows"

text \<open>
  The rate in exact arithmetic, for the examples: there the quotient and its product
  with 1000 are computed exactly in double arithmetic too.
\<close>

definition exact_rate :: "nat \<Rightarrow> nat \<Rightarrow> rat" where
  "exact_rate n_success n_total =
     of_int (round ((of_nat n_success / of_nat n_total) * 1000 :: rat)) / 10"

section \<open>Streaming transcoder\<close>

text \<open>
  \<open>createOpenAiStreamFromGrokNdjson\<close> and the functions it calls. What the JavaScript
  runtime provides is a parameter of the model: \<open>JSON.parse\<close> (with the shape of the
  parsed frame), \<open>String.prototype.trim\<close>, the \<open>URL\<close> parser and the clock. The
  upstream body is the list of the results of the successive \<open>reader.read()\<close> races; a missing body is \<open>None\<close>. The
  controller is the list of the chunks enqueued and a flag for \<open>close\<close>; the calls of
  \<open>onFinish\<close> are recorded with their argument. The \<open>id\<close> and \<open>created\<close> of a chunk are
  the same for all chunks of a stream and are left out. Strings are lists of 8-bit
  characters; text outside ASCII is written as its UTF-8 bytes. Numbers are integers,
  durations in seconds are rationals. \<open>enqueue\<close> and \<open>onFinish\<close> do not throw, and a
  line that parses is an object of the shape below, so that reading it does not throw;
  the only exceptions are the idle timeout and what \<open>reader.read()\<close> throws.
\<close>

subsection \<open>Strings\<close>

definition NL :: char where
  "NL = CHR 0x0A"

definition quoted :: "string \<Rightarrow> string" where
  "quoted s = CHR 0x22 # s @ [CHR 0x22]"

fun show_nat :: "nat \<Rightarrow> string" where
  "show_nat n =
     (if n < 10 then [char_of (48 + n)] else show_nat (n div 10) @ [char_of (48 + n mod 10)])"

declare show_nat.simps [simp del]

definition show_int :: "int \<Rightarrow> string" where
  "show_int i = (if i < 0 then CHR ''-'' # show_nat (nat (- i)) else show_nat (nat i))"

text \<open>\<open>s.split(sep)\<close> for a separator of one character.\<close>

fun split_on :: "char \<Rightarrow> string \<Rightarrow> string \<Rightarrow> string list" where
  "split_on sep [] cur = [cur]"
| "split_on sep (c # cs) cur =
     (if c = sep then cur # split_on sep cs [] else split_on sep cs (cur @ [c]))"

text \<open>\<open>lines.join("\n")\<close>.\<close>

fun join_lines :: "string list \<Rightarrow> string" where
  "join_lines [] = []"
| "join_lines [l] = l"
| "join_lines (l # ls) = l @ NL # join_lines ls"

text \<open>
  The complete lines of the decoder buffer and what is left after the last line feed,
  as the loop on \<open>buffer.indexOf("\n")\<close> cuts them off.
\<close>

fun split_lines :: "string \<Rightarrow> string \<Rightarrow> string list \<times> string" where
  "split_lines [] cur = ([], cur)"
| "split_lines (c # cs) cur =
     (if c = NL then (case split_lines cs [] of (ls, rest) \<Rightarrow> (cur # ls, rest))
      else split_lines cs (cur @ [c]))"

subsection \<open>Errors\<close>

text \<open>
  A thrown value: the idle timeout with its seconds, or any other value with
  \<open>String(e)\<close> and the message (\<open>e.message\<close> of an \<open>Error\<close>, else \<open>String(e)\<close>).
\<close>

datatype thrown = StreamIdleTimeoutError rat | Thrown string string

text \<open>
  \<open>toLowerCase\<close> maps the ASCII capitals. The three texts that \<open>isHttp2StreamError\<close>
  looks for are ASCII and have no \<open>i\<close> and no \<open>k\<close>, the two ASCII letters that the
  lower case of a character outside ASCII can contain.
\<close>

definition lower_char :: "char \<Rightarrow> char" where
  "lower_char c =
     (if (65 :: nat) \<le> of_char c \<and> of_char c \<le> (90 :: nat)
      then char_of (of_char c + (32 :: nat)) else c)"

definition toLowerCase :: "string \<Rightarrow> string" where
  "toLowerCase s = map lower_char s"

definition isHttp2StreamError :: "string \<Rightarrow> bool" where
  "isHttp2StreamError e_string =
     (let errStr = toLowerCase e_string
      in sublist ''http/2'' errStr \<or> sublist ''curl: (92)'' errStr \<or> sublist ''stream'' errStr)"

subsection \<open>Chunks\<close>

datatype finish_reason = FinishStop | FinishError

datatype sse_out = Chunk string string "finish_reason option" | DoneMarker

definition makeChunk :: "string \<Rightarrow> string \<Rightarrow> finish_reason option \<Rightarrow> sse_out" where
  "makeChunk model content fr = Chunk model content fr"

definition makeDone :: sse_out where
  "makeDone = DoneMarker"

text \<open>The content of the delta of a chunk; an empty content gives the delta \<open>{}\<close>.\<close>

fun delta_content :: "sse_out \<Rightarrow> string" where
  "delta_content (Chunk model content fr) = content"
| "delta_content DoneMarker = []"

fun finish_reason_of :: "sse_out \<Rightarrow> finish_reason option" where
  "finish_reason_of (Chunk model content fr) = fr"
| "finish_reason_of DoneMarker = None"

definition delta_contents :: "sse_out list \<Rightarrow> string" where
  "delta_contents outs = concat (map delta_content outs)"

subsection \<open>Upstream frames\<close>

text \<open>
  A parsed NDJSON line, with the properties the transcoder reads. A property that is
  tested for truthiness only is a flag; \<open>token\<close> is a string, an array or another value.
\<close>

record VideoResp =
  videoResp_progress :: "int option"
  videoResp_videoUrl :: "string option"
  videoResp_thumbnailImageUrl :: "string option"

record SearchResult =
  r_title :: "string option"
  r_url :: "string option"
  r_preview :: "string option"

record ModelResp =
  modelResp_generatedImageUrls :: "string option list option"

datatype TokenValue = TokString string | TokArray | TokOther

record GrokResponse =
  grok_userResponse_model :: "string option"
  grok_streamingVideoGenerationResponse :: "VideoResp option"
  grok_imageAttachmentInfo :: bool
  grok_token :: "TokenValue option"
  grok_modelResponse :: "ModelResp option"
  grok_isThinking :: bool
  grok_messageTag :: "string option"
  grok_toolUsageCardId :: bool
  grok_webSearchResults :: "SearchResult list option"

record GrokNdjson =
  data_error_message :: "string option"
  data_result_response :: "GrokResponse option"

subsection \<open>Asset URLs and video HTML\<close>

record Runtime =
  json_parse :: "string \<Rightarrow> GrokNdjson option"
  str_trim :: "string \<Rightarrow> string"
  url_href :: "string \<Rightarrow> string option"
  url_is_bare_root :: "string \<Rightarrow> bool"
  clock :: "nat \<Rightarrow> int"

record GlobalSettings =
  base_url :: "string option"

record Opts =
  opt_settings :: GrokSettings
  opt_global :: GlobalSettings
  opt_origin :: string
  opt_onFinish :: bool

definition toImgProxyUrl :: "Runtime \<Rightarrow> GlobalSettings \<Rightarrow> string \<Rightarrow> string \<Rightarrow> string" where
  "toImgProxyUrl R globalCfg origin path =
     (let trimmed = str_trim R (case base_url globalCfg of Some b \<Rightarrow> b | None \<Rightarrow> []);
          baseUrl = (if trimmed \<noteq> [] then trimmed else origin)
      in baseUrl @ ''/images/'' @ path)"

definition buildVideoTag :: "string \<Rightarrow> string" where
  "buildVideoTag src =
     ''<video src='' @ quoted src @ '' controls='' @ quoted ''controls'' @ '' width=''
       @ quoted ''500'' @ '' height='' @ quoted ''300'' @ ''></video>'' @ [NL]"

definition escape_quotes :: "string \<Rightarrow> string" where
  "escape_quotes s = concat (map (\<lambda>c. if c = CHR 0x22 then ''&quot;'' else [c]) s)"

definition buildVideoPosterPreview :: "string \<Rightarrow> string option \<Rightarrow> string" where
  "buildVideoPosterPreview videoUrl posterUrl =
     (let href = escape_quotes videoUrl;
          poster = escape_quotes (case posterUrl of Some p \<Rightarrow> p | None \<Rightarrow> [])
      in if href = [] then []
         else if poster = [] then
           ''<a href='' @ quoted href @ '' target='' @ quoted ''_blank'' @ '' rel=''
             @ quoted ''noopener noreferrer'' @ ''>'' @ href @ ''</a>'' @ [NL]
         else
           ''<a href='' @ quoted href @ '' target='' @ quoted ''_blank'' @ '' rel=''
             @ quoted ''noopener noreferrer'' @ '' style=''
             @ quoted ''display:inline-block;position:relative;max-width:100%;text-decoration:none;''
             @ ''>'' @ [NL]
             @ ''  <img src='' @ quoted poster @ '' alt='' @ quoted ''video'' @ '' style=''
             @ quoted ''max-width:100%;height:auto;border-radius:12px;display:block;''
             @ '' />'' @ [NL]
             @ ''  <span style=''
             @ quoted ''position:absolute;inset:0;display:flex;align-items:center;justify-content:center;''
             @ ''>'' @ [NL]
             @ ''    <span style=''
             @ quoted ''width:64px;height:64px;border-radius:9999px;background:rgba(0,0,0,.55);display:flex;align-items:center;justify-content:center;''
             @ ''>'' @ [NL]
             @ ''      <span style=''
             @ quoted ''width:0;height:0;border-top:12px solid transparent;border-bottom:12px solid transparent;border-left:18px solid #fff;margin-left:4px;''
             @ ''></span>'' @ [NL]
             @ ''    </span>'' @ [NL]
             @ ''  </span>'' @ [NL]
             @ ''</a>'' @ [NL])"

definition buildVideoHtml :: "string \<Rightarrow> string option \<Rightarrow> bool \<Rightarrow> string" where
  "buildVideoHtml videoUrl posterUrl posterPreview =
     (if posterPreview then buildVideoPosterPreview videoUrl posterUrl else buildVideoTag videoUrl)"

definition b64_char :: "nat \<Rightarrow> char" where
  "b64_char n = ''ABCDEFGHIJKLMNOPQRSTUVWXYZabcdefghijklmnopqrstuvwxyz0123456789+/'' ! n"

fun btoa :: "nat list \<Rightarrow> string" where
  "btoa [] = []"
| "btoa [a] = [b64_char (a div 4), b64_char ((a mod 4) * 16), CHR ''='', CHR ''='']"
| "btoa [a, b] =
     [b64_char (a div 4), b64_char ((a mod 4) * 16 + b div 16), b64_char ((b mod 16) * 4),
      CHR ''='']"
| "btoa (a # b # c # rest) =
     [b64_char (a div 4), b64_char ((a mod 4) * 16 + b div 16),
      b64_char ((b mod 16) * 4 + c div 64), b64_char (c mod 64)] @ btoa rest"

definition base64UrlEncode :: "string \<Rightarrow> string" where
  "base64UrlEncode input =
     rev (dropWhile (\<lambda>c. c = CHR ''='')
       (rev (map (\<lambda>c. if c = CHR ''+'' then CHR ''-'' else if c = CHR ''/'' then CHR ''_'' else c)
               (btoa (map of_char input)))))"

definition encodeAssetPath :: "Runtime \<Rightarrow> string \<Rightarrow> string" where
  "encodeAssetPath R raw =
     (case url_href R raw of
        Some href \<Rightarrow> ''u_'' @ base64UrlEncode href
      | None \<Rightarrow> ''p_'' @ base64UrlEncode (if prefix ''/'' raw then raw else ''/'' @ raw))"

text \<open>
  The input of \<open>normalizeGeneratedAssetUrls\<close>: \<open>None\<close> when it is no array, else the list
  of its elements, an element that is no string being \<open>None\<close>.
\<close>

fun keep_asset_urls :: "Runtime \<Rightarrow> string option list \<Rightarrow> string list" where
  "keep_asset_urls R [] = []"
| "keep_asset_urls R (None # vs) = keep_asset_urls R vs"
| "keep_asset_urls R (Some v # vs) =
     (if str_trim R v = [] then keep_asset_urls R vs
      else if str_trim R v = ''/'' then keep_asset_urls R vs
      else if url_is_bare_root R (str_trim R v) then keep_asset_urls R vs
      else str_trim R v # keep_asset_urls R vs)"

definition normalizeGeneratedAssetUrls :: "Runtime \<Rightarrow> string option list option \<Rightarrow> string list" where
  "normalizeGeneratedAssetUrls R input =
     (case input of None \<Rightarrow> [] | Some vs \<Rightarrow> keep_asset_urls R vs)"

subsection \<open>The stream\<close>

definition filteredTags_of :: "Runtime \<Rightarrow> GrokSettings \<Rightarrow> string list" where
  "filteredTags_of R st =
     filter (\<lambda>t. t \<noteq> [])
       (map (str_trim R) (split_on CHR '','' (case filtered_tags st of Some t \<Rightarrow> t | None \<Rightarrow> []) []))"

definition showThinking_of :: "GrokSettings \<Rightarrow> bool" where
  "showThinking_of st = (show_thinking st \<noteq> Some False)"

definition seconds_to_ms :: "int option \<Rightarrow> int \<Rightarrow> int" where
  "seconds_to_ms v dflt = max 0 ((case v of Some x \<Rightarrow> x | None \<Rightarrow> dflt) * 1000)"

definition firstTimeoutMs :: "Opts \<Rightarrow> int" where
  "firstTimeoutMs C = seconds_to_ms (stream_first_response_timeout (opt_settings C)) 30"

definition chunkTimeoutMs :: "Opts \<Rightarrow> int" where
  "chunkTimeoutMs C = seconds_to_ms (stream_chunk_timeout (opt_settings C)) 120"

definition totalTimeoutMs :: "Opts \<Rightarrow> int" where
  "totalTimeoutMs C = seconds_to_ms (stream_total_timeout (opt_settings C)) 600"

definition idleTimeoutMs :: "Opts \<Rightarrow> int" where
  "idleTimeoutMs C = seconds_to_ms (stream_idle_timeout (opt_settings C)) 45"

definition videoIdleTimeoutMs :: "Opts \<Rightarrow> int" where
  "videoIdleTimeoutMs C = seconds_to_ms (video_idle_timeout (opt_settings C)) 90"

text \<open>The variables of \<open>start\<close>, the controller and the record of the \<open>onFinish\<close> calls.\<close>

record Transcoder =
  nowCalls :: nat
  enqueued :: "sse_out list"
  controller_closed :: bool
  onFinish_calls :: "(int \<times> rat) list"
  startTime :: int
  finalStatus :: int
  lastChunkTime :: int
  firstReceived :: bool
  currentModel :: string
  isImage :: bool
  isVideo :: bool
  isThinking :: bool
  thinkingFinished :: bool
  videoProgressStarted :: bool
  lastVideoProgress :: int
  buffer :: string
  tagFilter :: TagFilter

datatype frame_exit = Continue Transcoder | Return Transcoder

datatype loop_exit =
    Returned Transcoder
  | Broke Transcoder
  | Threw thrown Transcoder
  | Pending Transcoder

datatype read_result =
    ReadTimeout
  | ReadDone
  | ReadNoValue
  | ReadValue string
  | ReadThrows thrown

text \<open>\<open>Date.now()\<close>: the next value of the clock.\<close>

definition date_now :: "Runtime \<Rightarrow> Transcoder \<Rightarrow> int \<times> Transcoder" where
  "date_now R s = (clock R (nowCalls s), s\<lparr>nowCalls := nowCalls s + 1\<rparr>)"

definition controller_enqueue :: "sse_out \<Rightarrow> Transcoder \<Rightarrow> Transcoder" where
  "controller_enqueue c s = s\<lparr>enqueued := enqueued s @ [c]\<rparr>"

definition controller_close :: "Transcoder \<Rightarrow> Transcoder" where
  "controller_close s = s\<lparr>controller_closed := True\<rparr>"

text \<open>\<open>if (opts.onFinish) await opts.onFinish({status, duration: (Date.now() - startTime) / 1000})\<close>.\<close>

definition call_onFinish :: "Runtime \<Rightarrow> Opts \<Rightarrow> int \<Rightarrow> Transcoder \<Rightarrow> Transcoder" where
  "call_onFinish R C st s =
     (if opt_onFinish C then
        (case date_now R s of
           (t, s1) \<Rightarrow> s1\<lparr>onFinish_calls := onFinish_calls s1 @ [(st, of_int (t - startTime s1) / 1000)]\<rparr>)
      else s)"

definition flushStop :: "Transcoder \<Rightarrow> Transcoder" where
  "flushStop s =
     controller_enqueue makeDone
       (controller_enqueue (makeChunk (currentModel s) [] (Some FinishStop)) s)"

text \<open>The four places that flush the stop, report and close.\<close>

definition stop_and_close :: "Runtime \<Rightarrow> Opts \<Rightarrow> Transcoder \<Rightarrow> Transcoder" where
  "stop_and_close R C s = controller_close (call_onFinish R C (finalStatus s) (flushStop s))"

text \<open>A frame with \<open>streamingVideoGenerationResponse\<close>.\<close>

definition video_progress_text :: string where
  "video_progress_text =
     [CHR 0xE8, CHR 0xA7, CHR 0x86, CHR 0xE9, CHR 0xA2, CHR 0x91, CHR 0xE5, CHR 0xB7, CHR 0xB2,
      CHR 0xE7, CHR 0x94, CHR 0x9F, CHR 0xE6, CHR 0x88, CHR 0x90]"

definition processing_error_text :: string where
  "processing_error_text =
     [CHR 0xE5, CHR 0xA4, CHR 0x84, CHR 0xE7, CHR 0x90, CHR 0x86, CHR 0xE9, CHR 0x94, CHR 0x99,
      CHR 0xE8, CHR 0xAF, CHR 0xAF, CHR 0x3A, CHR 0x20]"

definition video_frame :: "Runtime \<Rightarrow> Opts \<Rightarrow> VideoResp \<Rightarrow> Transcoder \<Rightarrow> Transcoder" where
  "video_frame R C videoResp s0 =
     (let s1 = s0\<lparr>isVideo := True\<rparr>;
          progress = (case videoResp_progress videoResp of Some p \<Rightarrow> p | None \<Rightarrow> 0);
          videoUrl = (case videoResp_videoUrl videoResp of Some u \<Rightarrow> u | None \<Rightarrow> []);
          thumbUrl = (case videoResp_thumbnailImageUrl videoResp of Some u \<Rightarrow> u | None \<Rightarrow> []);
          s2 = (if progress > lastVideoProgress s1 then
                  (let s = s1\<lparr>lastVideoProgress := progress\<rparr>
                   in if showThinking_of (opt_settings C) then
                        (if \<not> videoProgressStarted s then
                           controller_enqueue
                             (makeChunk (currentModel s)
                                (''<think>'' @ video_progress_text @ show_int progress @ ''%'' @ [NL]) None)
                             (s\<lparr>videoProgressStarted := True\<rparr>)
                         else if progress < 100 then
                           controller_enqueue
                             (makeChunk (currentModel s)
                                (video_progress_text @ show_int progress @ ''%'' @ [NL]) None) s
                         else
                           controller_enqueue
                             (makeChunk (currentModel s)
                                (video_progress_text @ show_int progress @ ''%</think>'' @ [NL]) None) s)
                      else s)
                else s1)
      in if videoUrl \<noteq> [] then
           (let src = toImgProxyUrl R (opt_global C) (opt_origin C) (encodeAssetPath R videoUrl);
                poster = (if thumbUrl \<noteq> []
                          then Some (toImgProxyUrl R (opt_global C) (opt_origin C) (encodeAssetPath R thumbUrl))
                          else None)
            in controller_enqueue
                 (makeChunk (currentModel s2)
                    (buildVideoHtml src poster (video_poster_preview (opt_settings C) = Some True)) None)
                 s2)
         else s2)"

text \<open>A frame in image mode.\<close>

definition image_frame :: "Runtime \<Rightarrow> Opts \<Rightarrow> GrokResponse \<Rightarrow> Transcoder \<Rightarrow> frame_exit" where
  "image_frame R C grok s =
     (case grok_modelResponse grok of
        Some modelResp \<Rightarrow>
          (let urls = normalizeGeneratedAssetUrls R (modelResp_generatedImageUrls modelResp)
           in if urls \<noteq> [] then
                (let linesOut = map (\<lambda>u. ''![Generated Image]('' @
                         toImgProxyUrl R (opt_global C) (opt_origin C) (encodeAssetPath R u) @ '')'') urls
                 in Return (controller_close (call_onFinish R C (finalStatus s)
                      (controller_enqueue makeDone
                        (controller_enqueue
                           (makeChunk (currentModel s) (join_lines linesOut) (Some FinishStop)) s)))))
              else Continue s)
      | None \<Rightarrow>
          (case grok_token grok of
             Some (TokString rawToken) \<Rightarrow>
               if rawToken \<noteq> []
               then Continue (controller_enqueue (makeChunk (currentModel s) rawToken None) s)
               else Continue s
           | _ \<Rightarrow> Continue s))"

text \<open>The list of search results appended to a thinking token.\<close>

definition search_result_line :: "SearchResult \<Rightarrow> string" where
  "search_result_line r =
     (let title = (case r_title r of Some t \<Rightarrow> t | None \<Rightarrow> []);
          url = (case r_url r of Some u \<Rightarrow> u | None \<Rightarrow> []);
          preview = (case r_preview r of Some p \<Rightarrow> filter (\<lambda>c. c \<noteq> NL) p | None \<Rightarrow> [])
      in NL # ''- ['' @ title @ '']('' @ url @ '' '' @ quoted preview @ '')'')"

text \<open>The search results of a frame with a tool usage card: the new token, or \<open>None\<close> to skip the frame.\<close>

definition append_search_results :: "bool \<Rightarrow> bool \<Rightarrow> GrokResponse \<Rightarrow> string \<Rightarrow> string option" where
  "append_search_results currentIsThinking showThinking grok token =
     (if grok_toolUsageCardId grok then
        (case grok_webSearchResults grok of
           Some results \<Rightarrow>
             if currentIsThinking then
               (if showThinking
                then Some (token @ concat (map search_result_line results) @ [NL])
                else None)
             else None
         | None \<Rightarrow> Some token)
      else Some token)"

text \<open>The thinking brackets around a content that is ready to be sent.\<close>

definition bracket_thinking :: "bool \<Rightarrow> bool \<Rightarrow> string \<Rightarrow> Transcoder \<Rightarrow> Transcoder" where
  "bracket_thinking currentIsThinking showThinking content s =
     (if \<not> isThinking s \<and> currentIsThinking then
        (if showThinking
         then (controller_enqueue (makeChunk (currentModel s) (''<think>'' @ [NL] @ content) None) s)
              \<lparr>isThinking := currentIsThinking\<rparr>
         else s\<lparr>isThinking := currentIsThinking\<rparr>)
      else if isThinking s \<and> \<not> currentIsThinking then
        (controller_enqueue
           (makeChunk (currentModel s)
              (if showThinking then [NL] @ ''</think>'' @ [NL] @ content else content) None)
           (s\<lparr>thinkingFinished := True\<rparr>))
        \<lparr>isThinking := currentIsThinking\<rparr>
      else if currentIsThinking \<and> \<not> showThinking then s\<lparr>isThinking := currentIsThinking\<rparr>
      else (controller_enqueue (makeChunk (currentModel s) content None) s)
           \<lparr>isThinking := currentIsThinking\<rparr>)"

text \<open>A frame of the text chat stream.\<close>

definition text_frame :: "Opts \<Rightarrow> GrokResponse \<Rightarrow> Transcoder \<Rightarrow> Transcoder" where
  "text_frame C grok s =
     (case grok_token grok of
        Some (TokString rawToken) \<Rightarrow>
          if rawToken = [] then s
          else
            (case TagFilter_filter (tagFilter s) rawToken of
               (tf, token) \<Rightarrow>
                 if token = [] then s\<lparr>tagFilter := tf\<rparr>
                 else if thinkingFinished s \<and> grok_isThinking grok then s\<lparr>tagFilter := tf\<rparr>
                 else
                   (case append_search_results (grok_isThinking grok)
                           (showThinking_of (opt_settings C)) grok token of
                      None \<Rightarrow> s\<lparr>tagFilter := tf\<rparr>
                    | Some tokenWithSearch \<Rightarrow>
                        bracket_thinking (grok_isThinking grok) (showThinking_of (opt_settings C))
                          (if grok_messageTag grok = Some ''header''
                           then [NL, NL] @ tokenWithSearch @ [NL, NL]
                           else tokenWithSearch)
                          (s\<lparr>tagFilter := tf\<rparr>)))
      | _ \<Rightarrow> s)"

text \<open>
  The handling of one parsed line, after \<open>firstReceived\<close> and \<open>lastChunkTime\<close> have been
  set. A truthy \<open>error.message\<close> is a string that is not empty.
\<close>

definition process_frame :: "Runtime \<Rightarrow> Opts \<Rightarrow> GrokNdjson \<Rightarrow> Transcoder \<Rightarrow> frame_exit" where
  "process_frame R C data s =
     (case truthy_string (data_error_message data) of
        Some message \<Rightarrow>
          Return (controller_close (call_onFinish R C 500
            (controller_enqueue makeDone
              (controller_enqueue
                 (makeChunk (currentModel s) (''Error: '' @ message) (Some FinishStop))
                 (s\<lparr>finalStatus := 500\<rparr>)))))
      | None \<Rightarrow>
        (case data_result_response data of
           None \<Rightarrow> Continue s
         | Some grok \<Rightarrow>
             (let s1 = (case grok_userResponse_model grok of
                          Some m \<Rightarrow> if str_trim R m \<noteq> [] then s\<lparr>currentModel := str_trim R m\<rparr> else s
                        | None \<Rightarrow> s)
              in case grok_streamingVideoGenerationResponse grok of
                   Some videoResp \<Rightarrow> Continue (video_frame R C videoResp s1)
                 | None \<Rightarrow>
                     (let s2 = (if grok_imageAttachmentInfo grok then s1\<lparr>isImage := True\<rparr> else s1)
                      in if isImage s2 then image_frame R C grok s2
                         else Continue (text_frame C grok s2)))))"

text \<open>The loop over the complete lines of the buffer.\<close>

fun process_lines :: "Runtime \<Rightarrow> Opts \<Rightarrow> string list \<Rightarrow> Transcoder \<Rightarrow> frame_exit" where
  "process_lines R C [] s = Continue s"
| "process_lines R C (raw # rest) s =
     (if str_trim R raw = [] then process_lines R C rest s
      else
        (case json_parse R (str_trim R raw) of
           None \<Rightarrow> process_lines R C rest s
         | Some data \<Rightarrow>
             (case date_now R (s\<lparr>firstReceived := True\<rparr>) of
                (t, s1) \<Rightarrow>
                  (case process_frame R C data (s1\<lparr>lastChunkTime := t\<rparr>) of
                     Continue s2 \<Rightarrow> process_lines R C rest s2
                   | Return s2 \<Rightarrow> Return s2))))"

text \<open>
  The deadline checks at the top of a round of the loop, for the clock value \<open>now\<close>:
  stop and close, or throw the idle timeout, or read with a per-read timeout.
\<close>

datatype deadline = StopNow | IdleTimeout rat | ReadFor int

definition check_deadlines :: "Opts \<Rightarrow> Transcoder \<Rightarrow> int \<Rightarrow> deadline" where
  "check_deadlines C s now =
     (let elapsed = now - startTime s;
          idle = now - lastChunkTime s;
          currentIdleTimeoutMs = (if isVideo s then videoIdleTimeoutMs C else idleTimeoutMs C)
      in if \<not> firstReceived s \<and> elapsed > firstTimeoutMs C then StopNow
         else if totalTimeoutMs C > 0 \<and> elapsed > totalTimeoutMs C then StopNow
         else if firstReceived s \<and> currentIdleTimeoutMs > 0 \<and> idle > currentIdleTimeoutMs
           then IdleTimeout (of_int idle / 1000)
         else if firstReceived s \<and> idle > chunkTimeoutMs C then StopNow
         else ReadFor
           (if totalTimeoutMs C > 0
            then min (if firstReceived s then chunkTimeoutMs C else firstTimeoutMs C)
                     (max 0 (totalTimeoutMs C - elapsed))
            else (if firstReceived s then chunkTimeoutMs C else firstTimeoutMs C)))"

text \<open>
  The \<open>while (true)\<close> loop. Each element of the list is the result of the read of one
  round, for a round that gets to its read; when the list is used up the stream is
  left as it is, waiting (\<open>Pending\<close>). \<open>readWithTimeout\<close> gives a timeout at once for a
  timeout that is not positive.
\<close>

fun run_loop :: "Runtime \<Rightarrow> Opts \<Rightarrow> read_result list \<Rightarrow> Transcoder \<Rightarrow> loop_exit" where
  "run_loop R C [] s = Pending s"
| "run_loop R C (res # rest) s =
     (case date_now R s of
        (now, s1) \<Rightarrow>
          (case check_deadlines C s1 now of
             StopNow \<Rightarrow> Returned (stop_and_close R C s1)
           | IdleTimeout idleSeconds \<Rightarrow> Threw (StreamIdleTimeoutError idleSeconds) s1
           | ReadFor perReadTimeout \<Rightarrow>
               if perReadTimeout \<le> 0 then Returned (stop_and_close R C s1)
               else
                 (case res of
                    ReadTimeout \<Rightarrow> Returned (stop_and_close R C s1)
                  | ReadThrows e \<Rightarrow> Threw e s1
                  | ReadDone \<Rightarrow> Broke s1
                  | ReadNoValue \<Rightarrow> run_loop R C rest s1
                  | ReadValue txt \<Rightarrow>
                      (case split_lines (buffer s1 @ txt) [] of
                         (ls, remaining) \<Rightarrow>
                           (case process_lines R C ls (s1\<lparr>buffer := remaining\<rparr>) of
                              Continue s2 \<Rightarrow> run_loop R C rest s2
                            | Return s2 \<Rightarrow> Returned s2)))))"

text \<open>The code after the loop, and the \<open>catch\<close> block.\<close>

definition after_loop :: "Runtime \<Rightarrow> Opts \<Rightarrow> Transcoder \<Rightarrow> Transcoder" where
  "after_loop R C s =
     controller_close (call_onFinish R C (finalStatus s)
       (controller_enqueue makeDone
         (controller_enqueue (makeChunk (currentModel s) [] (Some FinishStop)) s)))"

definition catch_block :: "Runtime \<Rightarrow> Opts \<Rightarrow> thrown \<Rightarrow> Transcoder \<Rightarrow> Transcoder" where
  "catch_block R C e s =
     (case e of
        StreamIdleTimeoutError idleSeconds \<Rightarrow>
          controller_close (call_onFinish R C (finalStatus s) (flushStop s))
      | Thrown e_string e_message \<Rightarrow>
          if isHttp2StreamError e_string
          then controller_close (call_onFinish R C 502 (flushStop s))
          else controller_close (call_onFinish R C 500
                 (controller_enqueue makeDone
                   (controller_enqueue
                      (makeChunk (currentModel s) (processing_error_text @ e_message) (Some FinishError))
                      (s\<lparr>finalStatus := 500\<rparr>)))))"

text \<open>What a caller and a consumer of the stream observe.\<close>

record StreamResult =
  res_output :: "sse_out list"
  res_closed :: bool
  res_onFinish :: "(int \<times> rat) list"
  res_released :: bool

definition result_of :: "bool \<Rightarrow> Transcoder \<Rightarrow> StreamResult" where
  "result_of rel s =
     \<lparr>res_output = enqueued s, res_closed = controller_closed s,
      res_onFinish = onFinish_calls s, res_released = rel\<rparr>"

definition initial_state :: "Runtime \<Rightarrow> Opts \<Rightarrow> int \<Rightarrow> Transcoder" where
  "initial_state R C t0 =
     \<lparr>nowCalls = 1, enqueued = [], controller_closed = False, onFinish_calls = [],
      startTime = t0, finalStatus = 200, lastChunkTime = t0, firstReceived = False,
      currentModel = ''grok-4-mini-thinking-tahoe'', isImage = False, isVideo = False,
      isThinking = False, thinkingFinished = False, videoProgressStarted = False,
      lastVideoProgress = - 1, buffer = [],
      tagFilter = TagFilter_new (filteredTags_of R (opt_settings C))\<rparr>"

text \<open>
  \<open>start\<close>: the first value of the clock is \<open>startTime\<close>. The \<open>finally\<close> block releases
  the reader on every path that leaves the \<open>try\<close>.
\<close>

definition createOpenAiStreamFromGrokNdjson ::
  "Runtime \<Rightarrow> Opts \<Rightarrow> read_result list option \<Rightarrow> StreamResult" where
  "createOpenAiStreamFromGrokNdjson R C body =
     (case body of
        None \<Rightarrow>
          \<lparr>res_output = [makeChunk ''grok-4-mini-thinking-tahoe'' ''Empty response'' (Some FinishError),
                          makeDone],
           res_closed = True, res_onFinish = [], res_released = False\<rparr>
      | Some reads \<Rightarrow>
          (case run_loop R C reads (initial_state R C (clock R 0)) of
             Returned s \<Rightarrow> result_of True s
           | Broke s \<Rightarrow> result_of True (after_loop R C s)
           | Threw e s \<Rightarrow> result_of True (catch_block R C e s)
           | Pending s \<Rightarrow> result_of False s))"

subsection \<open>Predicates used to state the properties of the transcoder\<close>

text \<open>A chunk without a finish reason.\<close>

fun plain_chunk :: "sse_out \<Rightarrow> bool" where
  "plain_chunk (Chunk model content fr) = (fr = None)"
| "plain_chunk DoneMarker = False"

text \<open>
  A stream inside its loop: not closed, nothing reported, the status still 200, only
  plain chunks sent, and video mode entered by a received frame only.
\<close>

definition running :: "Transcoder \<Rightarrow> bool" where
  "running s =
     (\<not> controller_closed s \<and> onFinish_calls s = [] \<and> finalStatus s = 200
      \<and> (firstReceived s \<or> \<not> isVideo s) \<and> list_all plain_chunk (enqueued s))"

text \<open>A stream that has ended: closed, and reported once if there is a callback.\<close>

definition finished_once :: "Opts \<Rightarrow> Transcoder \<Rightarrow> bool" where
  "finished_once C s =
     (controller_closed s \<and> length (onFinish_calls s) = (if opt_onFinish C then 1 else 0))"

subsection \<open>Example inputs\<close>

text \<open>The response object without properties, and the frame \<open>{result:{response:{isThinking, token}}}\<close>.\<close>

definition no_response :: GrokResponse where
  "no_response =
     \<lparr>grok_userResponse_model = None, grok_streamingVideoGenerationResponse = None,
      grok_imageAttachmentInfo = False, grok_token = None, grok_modelResponse = None,
      grok_isThinking = False, grok_messageTag = None, grok_toolUsageCardId = False,
      grok_webSearchResults = None\<rparr>"

definition token_frame :: "bool \<Rightarrow> string \<Rightarrow> GrokNdjson" where
  "token_frame thinking t =
     \<lparr>data_error_message = None,
      data_result_response =
        Some (no_response\<lparr>grok_isThinking := thinking, grok_token := Some (TokString t)\<rparr>)\<rparr>"

text \<open>A video frame that reports a progress of 10 percent.\<close>

definition video_progress_frame :: GrokNdjson where
  "video_progress_frame =
     \<lparr>data_error_message = None,
      data_result_response =
        Some (no_response\<lparr>grok_streamingVideoGenerationResponse :=
          Some \<lparr>videoResp_progress = Some 10, videoResp_videoUrl = None,
                videoResp_thumbnailImageUrl = None\<rparr>\<rparr>)\<rparr>"

text \<open>An image frame with a token and a model response that has no image URLs.\<close>

definition image_token_frame :: GrokNdjson where
  "image_token_frame =
     \<lparr>data_error_message = None,
      data_result_response =
        Some (no_response\<lparr>grok_imageAttachmentInfo := True,
          grok_modelResponse := Some \<lparr>modelResp_generatedImageUrls = Some []\<rparr>,
          grok_token := Some (TokString ''hi'')\<rparr>)\<rparr>"

text \<open>
  A parser that knows five lines, and a runtime around it with a given clock and the
  \<open>trim\<close> for ASCII text.
\<close>

definition example_parse :: "string \<Rightarrow> GrokNdjson option" where
  "example_parse l =
     (if l = ''frame A'' then Some (token_frame True ''A'')
      else if l = ''frame B'' then Some (token_frame True ''B'')
      else if l = ''frame C'' then Some (token_frame False ''C'')
      else if l = ''video'' then Some video_progress_frame
      else if l = ''image'' then Some image_token_frame
      else None)"

definition example_runtime :: "(nat \<Rightarrow> int) \<Rightarrow> Runtime" where
  "example_runtime clk =
     \<lparr>json_parse = example_parse, str_trim = ascii_trim, url_href = (\<lambda>u. None), url_is_bare_root = (\<lambda>u. False),
      clock = clk\<rparr>"

definition example_opts :: "GrokSettings \<Rightarrow> Opts" where
  "example_opts st =
     \<lparr>opt_settings = st, opt_global = \<lparr>base_url = None\<rparr>, opt_origin = ''https://gateway'',
      opt_onFinish = True\<rparr>"

text \<open>
  A stream between two rounds with nothing left over: the buffer is empty, the tag
  filter holds nothing back, the stream is in text mode, and the last chunk time is a
  value of the clock.
\<close>

definition calm :: "Runtime \<Rightarrow> Transcoder \<Rightarrow> bool" where
  "calm R s =
     (startTime s = clock R 0 \<and> (\<exists>k. lastChunkTime s = clock R k) \<and> buffer s = []
      \<and> \<not> isImage s \<and> pendingPrefix (tagFilter s) = [] \<and> \<not> inFilterTag (tagFilter s))"

text \<open>The state after a round that read one line with a token frame of one character.\<close>

definition after_token_line :: "Runtime \<Rightarrow> Opts \<Rightarrow> bool \<Rightarrow> char \<Rightarrow> Transcoder \<Rightarrow> Transcoder" where
  "after_token_line R C thinking c s =
     bracket_thinking thinking (showThinking_of (opt_settings C)) [c]
       (s\<lparr>nowCalls := Suc (Suc (nowCalls s)), buffer := [], firstReceived := True,
          lastChunkTime := clock R (Suc (nowCalls s))\<rparr>)"

section \<open>Properties of the batch task manager\<close>

subsection \<open>Counters and final event\<close>

lemma task_unsubscribe [simp]: "task (unsubscribe sid w) = (task w)\<lparr>callbacks := removeAll sid (callbacks (task w))\<rparr>"
  by (simp add: unsubscribe_def)

lemma streams_unsubscribe [simp]: "streams (unsubscribe sid w) = streams w"
  by (simp add: unsubscribe_def)

lemma task_enqueue [simp]: "task (enqueue sid m w) = task w"
  by (simp add: enqueue_def)

lemma task_close_stream [simp]: "task (close_stream sid w) = task w"
  by (simp add: close_stream_def)

lemma length_streams_enqueue [simp]: "length (streams (enqueue sid m w)) = length (streams w)"
  by (simp add: enqueue_def)

lemma length_streams_close [simp]: "length (streams (close_stream sid w)) = length (streams w)"
  by (simp add: close_stream_def)


lemma sse_callback_task: "task_data (task (sse_callback sid e w)) = task_data (task w)"
  by (simp add: sse_callback_def task_data_def)

lemma publish_to_task: "task_data (task (publish_to sids e w)) = task_data (task w)"
  by (induction sids arbitrary: w) (simp_all add: sse_callback_task)

lemma publish_task: "task_data (task (publish e w)) = task_data (task w)"
  by (simp add: publish_def publish_to_task)

lemma task_consistent_data: "task_consistent t = task_consistent (task_data t)"
  by (simp add: task_consistent_def task_data_def)

lemma task_consistent_publish:
  "task_consistent (task (publish e w)) = task_consistent (task w)"
  by (simp add: task_consistent_data[of "task (publish e w)"] task_consistent_data[of "task w"] publish_task)

lemma list_all_update:
  "list_all P xs \<Longrightarrow> P x \<Longrightarrow> list_all P (xs[i := x])"
  using set_update_subset_insert[of xs i x] by (auto simp: list_all_iff)

lemma streams_consistent_nth:
  "streams_consistent w \<Longrightarrow> sid < length (streams w) \<Longrightarrow> list_all msg_counts_consistent (chunks (streams w ! sid))"
  by (simp add: streams_consistent_def list_all_length)

lemma streams_consistent_enqueue:
  "streams_consistent w \<Longrightarrow> msg_counts_consistent m \<Longrightarrow> sid < length (streams w) \<Longrightarrow> streams_consistent (enqueue sid m w)"
  using streams_consistent_nth[of w sid]
  by (simp add: streams_consistent_def enqueue_def list_all_update)

lemma streams_consistent_close:
  "streams_consistent w \<Longrightarrow> sid < length (streams w) \<Longrightarrow> streams_consistent (close_stream sid w)"
  using streams_consistent_nth[of w sid]
  by (simp add: streams_consistent_def close_stream_def list_all_update)

lemma streams_consistent_unsubscribe [simp]:
  "streams_consistent (unsubscribe sid w) = streams_consistent w"
  by (simp add: streams_consistent_def)

lemma streams_consistent_callback:
  "streams_consistent w \<Longrightarrow> ev_processed e = ev_ok e + ev_fail e \<Longrightarrow> streams_consistent (sse_callback sid e w)"
  by (simp add: sse_callback_def streams_consistent_enqueue streams_consistent_close)

lemma streams_consistent_publish_to:
  "streams_consistent w \<Longrightarrow> ev_processed e = ev_ok e + ev_fail e \<Longrightarrow> streams_consistent (publish_to sids e w)"
  by (induction sids arbitrary: w) (simp_all add: streams_consistent_callback)

lemma streams_consistent_publish:
  "streams_consistent w \<Longrightarrow> ev_processed e = ev_ok e + ev_fail e \<Longrightarrow> streams_consistent (publish e w)"
  by (simp add: publish_def streams_consistent_publish_to)

lemma streams_task_update [simp]: "streams_consistent (w\<lparr>task := t\<rparr>) = streams_consistent w"
  by (simp add: streams_consistent_def)

lemma world_consistent_record:
  assumes "world_consistent w"
  shows "world_consistent (task_record is_ok item detail err w)"
proof -
  have t: "task_consistent (task w)" and s: "streams_consistent w"
    using assms by (simp_all add: world_consistent_def)
  have "task_consistent (task (task_record is_ok item detail err w))"
    unfolding task_record_def Let_def task_consistent_publish using t by (simp add: task_consistent_def)
  moreover have "streams_consistent (task_record is_ok item detail err w)"
    unfolding task_record_def Let_def
    by (rule streams_consistent_publish) (use t s in \<open>simp_all add: task_consistent_def\<close>)
  ultimately show ?thesis by (simp add: world_consistent_def)
qed

lemma world_consistent_finish:
  assumes "world_consistent w"
  shows "world_consistent (finish res warn w)"
proof -
  have t: "task_consistent (task w)" and s: "streams_consistent w"
    using assms by (simp_all add: world_consistent_def)
  have "task_consistent (task (finish res warn w))"
    unfolding finish_def Let_def task_consistent_publish using t by (simp add: task_consistent_def)
  moreover have "streams_consistent (finish res warn w)"
    unfolding finish_def Let_def
    by (rule streams_consistent_publish) (use t s in \<open>simp_all add: task_consistent_def\<close>)
  ultimately show ?thesis by (simp add: world_consistent_def)
qed

lemma world_consistent_failTask:
  assumes "world_consistent w"
  shows "world_consistent (failTask err w)"
proof -
  have t: "task_consistent (task w)" and s: "streams_consistent w"
    using assms by (simp_all add: world_consistent_def)
  have "task_consistent (task (failTask err w))"
    unfolding failTask_def Let_def task_consistent_publish using t by (simp add: task_consistent_def)
  moreover have "streams_consistent (failTask err w)"
    unfolding failTask_def Let_def
    by (rule streams_consistent_publish) (use t s in \<open>simp_all add: task_consistent_def\<close>)
  ultimately show ?thesis by (simp add: world_consistent_def)
qed

lemma world_consistent_finishCancelled:
  assumes "world_consistent w"
  shows "world_consistent (finishCancelled w)"
proof -
  have t: "task_consistent (task w)" and s: "streams_consistent w"
    using assms by (simp_all add: world_consistent_def)
  have "task_consistent (task (finishCancelled w))"
    unfolding finishCancelled_def Let_def task_consistent_publish using t by (simp add: task_consistent_def)
  moreover have "streams_consistent (finishCancelled w)"
    unfolding finishCancelled_def Let_def
    by (rule streams_consistent_publish) (use t s in \<open>simp_all add: task_consistent_def\<close>)
  ultimately show ?thesis by (simp add: world_consistent_def)
qed

lemma world_consistent_cancel: "world_consistent w \<Longrightarrow> world_consistent (cancel w)"
  by (simp add: cancel_def world_consistent_def task_consistent_def streams_consistent_def)

lemma world_consistent_createTaskSSEStream:
  assumes "world_consistent w"
  shows "world_consistent (snd (createTaskSSEStream w))"
proof -
  have t: "task_consistent (task w)" and s: "streams_consistent w"
    using assms by (simp_all add: world_consistent_def)
  let ?w1 = "w\<lparr>streams := streams w @ [\<lparr>chunks = [MsgInit (snapshot (task w))], stream_closed = False\<rparr>]\<rparr>"
  have s1: "streams_consistent ?w1"
    using t s by (simp add: streams_consistent_def task_consistent_def snapshot_def)
  show ?thesis
  proof (cases "finalEvent (task w)")
    case None
    then show ?thesis using t s1
      by (simp add: createTaskSSEStream_def Let_def world_consistent_def subscribe_def
          task_consistent_def streams_consistent_def)
  next
    case (Some fe)
    have fe: "msg_counts_consistent (MsgEvent fe)"
      using t Some by (simp add: task_consistent_def)
    have "streams_consistent (close_stream (length (streams w)) (enqueue (length (streams w)) (MsgEvent fe) ?w1))"
      by (intro streams_consistent_close streams_consistent_enqueue s1 fe) simp_all
    then show ?thesis using t Some
      by (simp add: createTaskSSEStream_def Let_def world_consistent_def)
  qed
qed

lemma world_consistent_call: "world_consistent w \<Longrightarrow> world_consistent (call w c)"
  by (cases c) (simp_all add: world_consistent_record world_consistent_finish world_consistent_failTask
      world_consistent_cancel world_consistent_finishCancelled world_consistent_createTaskSSEStream)

lemma world_consistent_calls: "world_consistent w \<Longrightarrow> world_consistent (calls cs w)"
  unfolding calls_def by (induction cs arbitrary: w) (simp_all add: world_consistent_call)

lemma world_consistent_createTask: "world_consistent (createTask uuid n now)"
  by (simp add: world_consistent_def task_consistent_def streams_consistent_def createTask_def BatchTask_new_def)

text \<open>
  Claim C5. For a freshly created batch task and any sequence of \<open>record\<close>, \<open>finish\<close>,
  \<open>failTask\<close>, \<open>cancel\<close> and \<open>finishCancelled\<close> calls (and of new SSE subscriptions),
  the task has \<open>processed = ok + fail\<close> after the sequence, its \<open>finalEvent\<close> is set
  exactly when its status is not \<open>running\<close>, and every snapshot and event that any
  subscriber's stream has received carries counters with \<open>processed = ok + fail\<close>.
  The sequence is arbitrary, so the statement holds after each of its calls.
\<close>

theorem batch_counters_and_final_event:
  "processed (task (calls cs (createTask uuid n now)))
     = ok (task (calls cs (createTask uuid n now))) + fail (task (calls cs (createTask uuid n now)))
   \<and> (finalEvent (task (calls cs (createTask uuid n now))) \<noteq> None)
       = (task_status (task (calls cs (createTask uuid n now))) \<noteq> Running)
   \<and> list_all (\<lambda>s. list_all msg_counts_consistent (chunks s)) (streams (calls cs (createTask uuid n now)))"
  using world_consistent_calls[OF world_consistent_createTask, of cs uuid n now]
  by (simp add: world_consistent_def task_consistent_def streams_consistent_def)

subsection \<open>Late subscribers\<close>

lemma detached_callback:
  "detached sid st w \<Longrightarrow> sid' \<noteq> sid \<Longrightarrow> detached sid st (sse_callback sid' e w)"
  by (simp add: detached_def sse_callback_def unsubscribe_def enqueue_def close_stream_def)

lemma detached_publish_to:
  "detached sid st w \<Longrightarrow> detached sid st (publish_to sids e w)"
proof (induction sids arbitrary: w)
  case Nil
  then show ?case by simp
next
  case (Cons a sids)
  have "detached sid st (if a \<in> set (callbacks (task w)) then sse_callback a e w else w)"
  proof (cases "a \<in> set (callbacks (task w))")
    case True
    then have "a \<noteq> sid" using Cons.prems by (auto simp: detached_def)
    then show ?thesis using True Cons.prems by (simp add: detached_callback)
  next
    case False
    then show ?thesis using Cons.prems by simp
  qed
  then show ?case using Cons.IH by simp
qed

lemma detached_task_update:
  "detached sid st w \<Longrightarrow> callbacks t = callbacks (task w) \<Longrightarrow> detached sid st (w\<lparr>task := t\<rparr>)"
  by (simp add: detached_def)

lemma detached_publish:
  "detached sid st w \<Longrightarrow> detached sid st (publish e w)"
  by (simp add: publish_def detached_publish_to)

lemma detached_call: 
  assumes "detached sid st w"
  shows "detached sid st (call w c)"
proof (cases c)
  case (CallRecord is_ok item detail err)
  show ?thesis unfolding CallRecord call.simps task_record_def Let_def
    by (intro detached_publish detached_task_update assms) simp
next
  case (CallFinish res warn)
  show ?thesis unfolding CallFinish call.simps finish_def Let_def
    by (intro detached_publish detached_task_update assms) simp
next
  case (CallFailTask err)
  show ?thesis unfolding CallFailTask call.simps failTask_def Let_def
    by (intro detached_publish detached_task_update assms) simp
next
  case CallCancel
  show ?thesis unfolding CallCancel call.simps cancel_def
    by (intro detached_task_update assms) simp
next
  case CallFinishCancelled
  show ?thesis unfolding CallFinishCancelled call.simps finishCancelled_def Let_def
    by (intro detached_publish detached_task_update assms) simp
next
  case CallCreateSSEStream
  show ?thesis using assms unfolding CallCreateSSEStream
    by (simp add: createTaskSSEStream_def Let_def detached_def subscribe_def enqueue_def
        close_stream_def nth_append split: option.splits)
qed

lemma detached_calls: "detached sid st w \<Longrightarrow> detached sid st (calls cs w)"
  unfolding calls_def by (induction cs arbitrary: w) (simp_all add: detached_call)

lemma createTaskSSEStream_final:
  assumes "finalEvent (task w) = Some fe"
  shows "createTaskSSEStream w =
   (length (streams w),
    w\<lparr>streams := streams w @
        [\<lparr>chunks = [MsgInit (snapshot (task w)), MsgEvent fe], stream_closed = True\<rparr>]\<rparr>)"
  using assms by (simp add: createTaskSSEStream_def Let_def enqueue_def close_stream_def)

lemma sse_callback_shrinks:
  "set (callbacks (task (sse_callback sid e w))) \<subseteq> set (callbacks (task w))
   \<and> length (streams (sse_callback sid e w)) = length (streams w)"
  by (auto simp: sse_callback_def)

lemma publish_to_shrinks:
  "set (callbacks (task (publish_to sids e w))) \<subseteq> set (callbacks (task w))
   \<and> length (streams (publish_to sids e w)) = length (streams w)"
proof (induction sids arbitrary: w)
  case Nil
  show ?case by simp
next
  case (Cons a sids)
  show ?case
    using Cons.IH[of "if a \<in> set (callbacks (task w)) then sse_callback a e w else w"]
      sse_callback_shrinks[of a e w]
    by (auto split: if_splits)
qed

lemma callbacks_in_store_publish:
  assumes "callbacks_in_store w"
  shows "callbacks_in_store (publish e w)"
  using assms publish_to_shrinks[of "callbacks (task w)" e w]
  by (auto simp: callbacks_in_store_def publish_def list_all_iff)

lemma callbacks_in_store_task_update:
  "callbacks_in_store w \<Longrightarrow> callbacks t = callbacks (task w) \<Longrightarrow> callbacks_in_store (w\<lparr>task := t\<rparr>)"
  by (simp add: callbacks_in_store_def)

lemma callbacks_in_store_call:
  assumes "callbacks_in_store w"
  shows "callbacks_in_store (call w c)"
proof (cases c)
  case (CallRecord is_ok item detail err)
  show ?thesis unfolding CallRecord call.simps task_record_def Let_def
    by (intro callbacks_in_store_publish callbacks_in_store_task_update assms) simp
next
  case (CallFinish res warn)
  show ?thesis unfolding CallFinish call.simps finish_def Let_def
    by (intro callbacks_in_store_publish callbacks_in_store_task_update assms) simp
next
  case (CallFailTask err)
  show ?thesis unfolding CallFailTask call.simps failTask_def Let_def
    by (intro callbacks_in_store_publish callbacks_in_store_task_update assms) simp
next
  case CallCancel
  show ?thesis unfolding CallCancel call.simps cancel_def
    by (intro callbacks_in_store_task_update assms) simp
next
  case CallFinishCancelled
  show ?thesis unfolding CallFinishCancelled call.simps finishCancelled_def Let_def
    by (intro callbacks_in_store_publish callbacks_in_store_task_update assms) simp
next
  case CallCreateSSEStream
  show ?thesis using assms unfolding CallCreateSSEStream
    by (auto simp: createTaskSSEStream_def Let_def callbacks_in_store_def subscribe_def enqueue_def
        close_stream_def list_all_iff less_Suc_eq split: option.splits)
qed

lemma callbacks_in_store_calls: "callbacks_in_store w \<Longrightarrow> callbacks_in_store (calls cs w)"
  unfolding calls_def by (induction cs arbitrary: w) (simp_all add: callbacks_in_store_call)

lemma callbacks_in_store_createTask: "callbacks_in_store (createTask uuid n now)"
  by (simp add: callbacks_in_store_def createTask_def BatchTask_new_def)

text \<open>
  Claim C6. For a task reached from \<open>createTask\<close> by any calls and whose \<open>finalEvent\<close>
  is set, \<open>createTaskSSEStream\<close> returns a stream that holds exactly two events, the
  \<open>init\<close> event with the task's snapshot and then the final event, and that is closed;
  the task is not subscribed to, and whatever is called on the task afterwards the
  stream still holds these two events only.
\<close>

theorem late_subscriber_init_then_final:
  assumes "w = calls cs0 (createTask uuid n now)" and "finalEvent (task w) = Some fe"
  shows "createTaskSSEStream w =
   (length (streams w),
    w\<lparr>streams := streams w @
        [\<lparr>chunks = [MsgInit (snapshot (task w)), MsgEvent fe], stream_closed = True\<rparr>]\<rparr>)
   \<and> streams (calls cs (snd (createTaskSSEStream w))) ! length (streams w) =
        \<lparr>chunks = [MsgInit (snapshot (task w)), MsgEvent fe], stream_closed = True\<rparr>"
proof -
  let ?st = "\<lparr>chunks = [MsgInit (snapshot (task w)), MsgEvent fe], stream_closed = True\<rparr>"
  have "callbacks_in_store w"
    using assms(1) callbacks_in_store_calls callbacks_in_store_createTask by simp
  then have "length (streams w) \<notin> set (callbacks (task w))"
    by (auto simp: callbacks_in_store_def list_all_iff)
  then have "detached (length (streams w)) ?st (snd (createTaskSSEStream w))"
    by (simp add: createTaskSSEStream_final[OF assms(2)] detached_def)
  then have "detached (length (streams w)) ?st (calls cs (snd (createTaskSSEStream w)))"
    by (rule detached_calls)
  then show ?thesis
    by (simp add: createTaskSSEStream_final[OF assms(2)] detached_def)
qed

theorem late_subscriber_init_then_final_witness:
  "(let w = calls [CallRecord True None None None, CallRecord True None None None, CallFinish ''{n:2}'' None]
              (createTask ''7f'' 2 0);
        fe = \<lparr>ev_type = TDone, ev_task_id = ''7f'', ev_total = 2, ev_processed = 2, ev_ok = 2,
              ev_fail = 0, ev_item = None, ev_detail = None, ev_error = None,
              ev_warning = Some None, ev_result = Some ''{n:2}''\<rparr>
    in finalEvent (task w) = Some fe
       \<and> fst (createTaskSSEStream w) = 0
       \<and> streams (calls [CallRecord False None None (Some ''late''), CallFailTask ''x'']
             (snd (createTaskSSEStream w))) ! 0
          = \<lparr>chunks = [MsgInit \<lparr>snap_task_id = ''7f'', snap_status = Done, snap_total = 2,
                snap_processed = 2, snap_ok = 2, snap_fail = 0, snap_warning = None\<rparr>, MsgEvent fe],
              stream_closed = True\<rparr>)"
proof -
  define w where "w = calls [CallRecord True None None None, CallRecord True None None None, CallFinish ''{n:2}'' None]
              (createTask ''7f'' 2 0)"
  define fe where "fe = \<lparr>ev_type = TDone, ev_task_id = ''7f'', ev_total = 2, ev_processed = 2, ev_ok = 2,
              ev_fail = 0, ev_item = None, ev_detail = None, ev_error = None,
              ev_warning = Some (None :: string option), ev_result = Some ''{n:2}''\<rparr>"
  have w: "w = \<lparr>task = \<lparr>task_id = ''7f'', task_total = 2, createdAt = 0, processed = 2, ok = 2, fail = 0,
         task_status = Done, task_warning = None, task_result = Some ''{n:2}'', task_error = None, cancelled = False,
         finalEvent = Some fe, callbacks = []\<rparr>, streams = []\<rparr>"
    unfolding w_def fe_def
    by (simp add: calls_def createTask_def BatchTask_new_def task_record_def finish_def publish_def Let_def
        truthy_string_def)
  have f: "finalEvent (task w) = Some fe" by (simp add: w)
  have len: "length (streams w) = 0" by (simp add: w)
  have snap: "snapshot (task w) = \<lparr>snap_task_id = ''7f'', snap_status = Done, snap_total = 2,
                snap_processed = 2, snap_ok = 2, snap_fail = 0, snap_warning = None\<rparr>"
    by (simp add: w snapshot_def)
  note th = late_subscriber_init_then_final[OF w_def f,
      of "[CallRecord False None None (Some ''late''), CallFailTask ''x'']"]
  have c1: "fst (createTaskSSEStream w) = 0"
    using th len by simp
  have c2: "streams (calls [CallRecord False None None (Some ''late''), CallFailTask ''x'']
             (snd (createTaskSSEStream w))) ! 0
          = \<lparr>chunks = [MsgInit \<lparr>snap_task_id = ''7f'', snap_status = Done, snap_total = 2,
                snap_processed = 2, snap_ok = 2, snap_fail = 0, snap_warning = None\<rparr>, MsgEvent fe],
              stream_closed = True\<rparr>"
    using conjunct2[OF th] unfolding len snap .
  show ?thesis
    unfolding Let_def w_def[symmetric] fe_def[symmetric]
    by (intro conjI) (rule f c1 c2)+
qed

subsection \<open>The final event\<close>








section \<open>Properties of the tag filter\<close>

lemma match_open_tags_full:
  "snd (match_open_tags ts p a) = (\<exists>t\<in>set ts. prefix (CHR ''<'' # t) p)"
  by (induction ts arbitrary: a) auto

lemma match_open_tags_any:
  "\<not> snd (match_open_tags ts p a) \<Longrightarrow>
     fst (match_open_tags ts p a) = (a \<or> (\<exists>t\<in>set ts. prefix p (CHR ''<'' # t)))"
  by (induction ts arbitrary: a) (auto split: if_splits)

text \<open>How the next character resolves a pending prefix.\<close>

lemma filter_char_pending:
  assumes "pendingPrefix f \<noteq> []"
  shows "filter_char f c =
    (if \<exists>t\<in>set (tags f). prefix (CHR ''<'' # t) (pendingPrefix f @ [c])
     then (f\<lparr>inFilterTag := True, tagBuffer := pendingPrefix f @ [c], pendingPrefix := []\<rparr>, [])
     else if \<exists>t\<in>set (tags f). prefix (pendingPrefix f @ [c]) (CHR ''<'' # t)
     then (f\<lparr>pendingPrefix := pendingPrefix f @ [c]\<rparr>, [])
     else (f\<lparr>pendingPrefix := []\<rparr>, pendingPrefix f @ [c]))"
proof -
  obtain a b where m: "match_open_tags (tags f) (pendingPrefix f @ [c]) False = (a, b)"
    by (cases "match_open_tags (tags f) (pendingPrefix f @ [c]) False")
  have b: "b = (\<exists>t\<in>set (tags f). prefix (CHR ''<'' # t) (pendingPrefix f @ [c]))"
    using match_open_tags_full[of "tags f" "pendingPrefix f @ [c]" False] m by simp
  have a: "\<not> b \<Longrightarrow> a = (\<exists>t\<in>set (tags f). prefix (pendingPrefix f @ [c]) (CHR ''<'' # t))"
    using match_open_tags_any[of "tags f" "pendingPrefix f @ [c]" False] m by simp
  show ?thesis
  proof (cases b)
    case True
    then show ?thesis using assms m b by (simp add: filter_char_def)
  next
    case False
    then show ?thesis using assms m b a[OF False] by (simp add: filter_char_def)
  qed
qed

lemma tags_filter_char [simp]: "tags (fst (filter_char f c)) = tags f"
  by (simp add: filter_char_def split: prod.splits)

lemma filter_inv_char:
  assumes "filter_inv f"
  shows "filter_inv (fst (filter_char f c))"
proof (cases "pendingPrefix f = []")
  case True
  obtain t where t: "t \<in> set (tags f)" "t \<noteq> []"
    using assms by (cases "tags f") (auto simp: filter_inv_def)
  have "strict_prefix [] t"
    using t(2) by (simp add: strict_prefix_def)
  then show ?thesis using assms True t(1)
    by (auto simp: filter_inv_def filter_char_def intro: bexI[of _ t])
next
  case False
  have tg: "tags f \<noteq> []" "[] \<notin> set (tags f)" "\<not> inFilterTag f"
    using assms False by (auto simp: filter_inv_def)
  show ?thesis
  proof (cases "\<exists>t\<in>set (tags f). prefix (CHR ''<'' # t) (pendingPrefix f @ [c])")
    case True
    then show ?thesis using tg
      by (simp add: filter_char_pending[OF False] filter_inv_def)
  next
    case nofull: False
    show ?thesis
    proof (cases "\<exists>t\<in>set (tags f). prefix (pendingPrefix f @ [c]) (CHR ''<'' # t)")
      case True
      then obtain t where t: "t \<in> set (tags f)" "prefix (pendingPrefix f @ [c]) (CHR ''<'' # t)"
        by blast
      have "pendingPrefix f @ [c] \<noteq> CHR ''<'' # t"
        using nofull t(1) by auto
      then have "strict_prefix (pendingPrefix f @ [c]) (CHR ''<'' # t)"
        using t(2) by (simp add: strict_prefix_def)
      then have "\<exists>t\<in>set (tags f). strict_prefix (pendingPrefix f @ [c]) (CHR ''<'' # t)"
        using t(1) by blast
      then show ?thesis using tg nofull True
        by (simp add: filter_char_pending[OF False] filter_inv_def)
    next
      case False
      then show ?thesis using tg nofull
        by (simp add: filter_char_pending[OF \<open>pendingPrefix f \<noteq> []\<close>] filter_inv_def)
    qed
  qed
qed

lemma filter_chars_acc:
  "filter_chars f cs acc = (fst (filter_chars f cs []), acc @ snd (filter_chars f cs []))"
proof (induction cs arbitrary: f acc)
  case Nil
  show ?case by simp
next
  case (Cons c cs)
  obtain f' out where s: "filter_char f c = (f', out)" by (cases "filter_char f c")
  show ?case
    using Cons.IH[of f' "acc @ out"] Cons.IH[of f' out] by (simp add: s)
qed

lemma filter_chars_snoc:
  "filter_chars f (cs @ [c]) [] =
     (fst (filter_char (fst (filter_chars f cs [])) c),
      snd (filter_chars f cs []) @ snd (filter_char (fst (filter_chars f cs [])) c))"
proof (induction cs arbitrary: f)
  case Nil
  show ?case by (simp split: prod.splits)
next
  case (Cons a cs)
  obtain f' out where s: "filter_char f a = (f', out)" by (cases "filter_char f a")
  show ?case
    using Cons.IH[of f'] filter_chars_acc[of f' "cs @ [c]" out] filter_chars_acc[of f' cs out]
    by (simp add: s)
qed

lemma filter_inv_chars: "filter_inv f \<Longrightarrow> filter_inv (fst (filter_chars f cs []))"
proof (induction cs rule: rev_induct)
  case Nil
  then show ?case by simp
next
  case (snoc c cs)
  then show ?case by (simp add: filter_chars_snoc filter_inv_char)
qed

text \<open>What is held back has not been returned.\<close>

lemma held_back_chars:
  assumes "pendingPrefix f0 = []"
      and "pendingPrefix (fst (filter_chars f0 cs [])) \<noteq> []"
  shows "\<exists>pre. cs = pre @ pendingPrefix (fst (filter_chars f0 cs []))
           \<and> snd (filter_chars f0 cs []) = snd (filter_chars f0 pre [])"
  using assms(2)
proof (induction cs rule: rev_induct)
  case Nil
  then show ?case using assms(1) by simp
next
  case (snoc c cs)
  let ?f = "fst (filter_chars f0 cs [])"
  show ?case
  proof (cases "pendingPrefix ?f = []")
    case True
    have h: "c = CHR ''<''" and h2: "pendingPrefix (fst (filter_char ?f c)) = ''<''"
      and h3: "snd (filter_char ?f c) = []"
      using snoc.prems True
      by (auto simp: filter_chars_snoc filter_char_def split: if_splits)
    show ?thesis
      unfolding filter_chars_snoc fst_conv snd_conv h2 h3 using h
      by (intro exI[of _ cs]) simp
  next
    case False
    from snoc.IH[OF False] obtain pre where
      pre: "cs = pre @ pendingPrefix ?f" "snd (filter_chars f0 cs []) = snd (filter_chars f0 pre [])"
      by blast
    have "pendingPrefix (fst (filter_char ?f c)) = pendingPrefix ?f @ [c] \<and> snd (filter_char ?f c) = []"
      using snoc.prems unfolding filter_chars_snoc filter_char_pending[OF False]
      by (auto split: if_splits)
    then show ?thesis using pre
      by (intro exI[of _ pre]) (simp add: filter_chars_snoc)
  qed
qed

lemma filter_chars_append:
  "filter_chars f (xs @ ys) [] =
     (fst (filter_chars (fst (filter_chars f xs [])) ys []),
      snd (filter_chars f xs []) @ snd (filter_chars (fst (filter_chars f xs [])) ys []))"
proof (induction xs arbitrary: f)
  case Nil
  show ?case by simp
next
  case (Cons a xs)
  obtain f' out where s: "filter_char f a = (f', out)" by (cases "filter_char f a")
  show ?case
    using Cons.IH[of f'] filter_chars_acc[of f' "xs @ ys" out] filter_chars_acc[of f' xs out]
    by (simp add: s)
qed

lemma tags_filter_chars [simp]: "tags (fst (filter_chars f cs [])) = tags f"
  by (induction cs rule: rev_induct) (simp_all add: filter_chars_snoc)

lemma filter_tokens_chars:
  "tags f \<noteq> [] \<Longrightarrow> filter_tokens f toks = filter_chars f (concat toks) []"
proof (induction toks arbitrary: f)
  case Nil
  show ?case by simp
next
  case (Cons tok toks)
  obtain f1 out1 where s: "filter_chars f tok [] = (f1, out1)" by (cases "filter_chars f tok []")
  have "tags f1 \<noteq> []" using Cons.prems tags_filter_chars[of f tok] s by simp
  from Cons.IH[OF this] show ?case
    using Cons.prems s by (simp add: TagFilter_filter_def filter_chars_append split: prod.splits)
qed

lemma filter_tokens_no_tags:
  "tags f = [] \<Longrightarrow> filter_tokens f toks = (f, concat toks)"
  by (induction toks arbitrary: f) (simp_all add: TagFilter_filter_def)

lemma filter_inv_new: "tags (TagFilter_new ts) \<noteq> [] \<Longrightarrow> filter_inv (TagFilter_new ts)"
  by (auto simp: filter_inv_def TagFilter_new_def)

lemma xaiartifact_scenario:
  "(case TagFilter_filter (TagFilter_new [''xaiartifact'']) ''Hello <xai'' of
      (f1, out1) \<Rightarrow>
        (case TagFilter_filter f1 ''artifact>secret</xaiartifact> World'' of
           (f2, out2) \<Rightarrow> out1 = ''Hello '' \<and> pendingPrefix f1 = ''<xai'' \<and> out2 = '' World''
              \<and> out1 @ out2 = ''Hello  World''))"
  by code_simp

lemma held_back_tokens:
  assumes "pendingPrefix (fst (filter_tokens (TagFilter_new ts) toks)) \<noteq> []"
  shows "\<not> inFilterTag (fst (filter_tokens (TagFilter_new ts) toks))
     \<and> (\<exists>t\<in>set (tags (TagFilter_new ts)).
           strict_prefix (pendingPrefix (fst (filter_tokens (TagFilter_new ts) toks))) (CHR ''<'' # t))
     \<and> (\<exists>pre. concat toks = pre @ pendingPrefix (fst (filter_tokens (TagFilter_new ts) toks))
           \<and> snd (filter_tokens (TagFilter_new ts) toks) = snd (filter_tokens (TagFilter_new ts) [pre]))"
proof (cases "tags (TagFilter_new ts) = []")
  case True
  then show ?thesis using assms by (simp add: filter_tokens_no_tags TagFilter_new_def)
next
  case False
  let ?f0 = "TagFilter_new ts"
  have eq: "filter_tokens ?f0 toks = filter_chars ?f0 (concat toks) []"
    by (rule filter_tokens_chars[OF False])
  have inv: "filter_inv (fst (filter_chars ?f0 (concat toks) []))"
    by (rule filter_inv_chars[OF filter_inv_new[OF False]])
  have p0: "pendingPrefix ?f0 = []" by (simp add: TagFilter_new_def)
  have ne: "pendingPrefix (fst (filter_chars ?f0 (concat toks) [])) \<noteq> []"
    using assms eq by simp
  from held_back_chars[OF p0 ne] obtain pre where
    pre: "concat toks = pre @ pendingPrefix (fst (filter_chars ?f0 (concat toks) []))"
         "snd (filter_chars ?f0 (concat toks) []) = snd (filter_chars ?f0 pre [])"
    by blast
  have one: "filter_tokens ?f0 [pre] = filter_chars ?f0 pre []"
    using filter_tokens_chars[OF False, of "[pre]"] by simp
  have A: "\<not> inFilterTag (fst (filter_tokens ?f0 toks))"
    unfolding eq using inv ne by (simp add: filter_inv_def)
  have B: "\<exists>t\<in>set (tags ?f0). strict_prefix (pendingPrefix (fst (filter_tokens ?f0 toks))) (CHR ''<'' # t)"
    unfolding eq using inv ne by (simp add: filter_inv_def)
  have C1: "concat toks = pre @ pendingPrefix (fst (filter_tokens ?f0 toks))"
    unfolding eq by (rule pre(1))
  have C2: "snd (filter_tokens ?f0 toks) = snd (filter_tokens ?f0 [pre])"
    unfolding eq one by (rule pre(2))
  have C: "\<exists>pre. concat toks = pre @ pendingPrefix (fst (filter_tokens ?f0 toks))
           \<and> snd (filter_tokens ?f0 toks) = snd (filter_tokens ?f0 [pre])"
    by (rule exI[of _ pre], rule conjI[OF C1 C2])
  show ?thesis
    by (rule conjI[OF A conjI[OF B C]])
qed

lemma in_tag_returns_nothing:
  "pendingPrefix f = [] \<and> inFilterTag f \<Longrightarrow> snd (filter_char f c) = []"
  by (simp add: filter_char_def)

text \<open>
  The pending prefix. With the filter tags \<open>["xaiartifact"]\<close>, the tokens \<open>"Hello <xai"\<close>
  and \<open>"artifact>secret</xaiartifact> World"\<close> passed to \<open>filter\<close> in order give \<open>"Hello "\<close>
  and \<open>" World"\<close>, which concatenate to \<open>"Hello  World"\<close>. For any tags and any tokens
  passed to a new filter: when a prefix is pending afterwards, the filter is not inside
  a tag, the pending text is a proper prefix of an open tag \<open><T\<close> of a configured \<open>T\<close>,
  it ends the input read so far and nothing of it has been returned. The next
  character resolves a pending prefix in one of three ways: the extended prefix starts
  with an open tag and goes into the tag buffer, returning nothing; or it is still a
  prefix of an open tag and stays pending, returning nothing; or it is neither and is
  returned verbatim as a whole. Inside a tag no character returns anything. These are
  facts about the variable \<open>pendingPrefix\<close>; they do not bound what \<open>filter\<close> returns,
  see the theorem that follows.
\<close>

lemma tag_filter_pending_prefix:
  "(case TagFilter_filter (TagFilter_new [''xaiartifact'']) ''Hello <xai'' of
      (f1, out1) \<Rightarrow>
        (case TagFilter_filter f1 ''artifact>secret</xaiartifact> World'' of
           (f2, out2) \<Rightarrow> out1 = ''Hello '' \<and> pendingPrefix f1 = ''<xai'' \<and> out2 = '' World''
              \<and> out1 @ out2 = ''Hello  World''))
   \<and> (pendingPrefix (fst (filter_tokens (TagFilter_new ts) toks)) \<noteq> [] \<longrightarrow>
        \<not> inFilterTag (fst (filter_tokens (TagFilter_new ts) toks))
        \<and> (\<exists>t\<in>set (tags (TagFilter_new ts)).
              strict_prefix (pendingPrefix (fst (filter_tokens (TagFilter_new ts) toks))) (CHR ''<'' # t))
        \<and> (\<exists>pre. concat toks = pre @ pendingPrefix (fst (filter_tokens (TagFilter_new ts) toks))
              \<and> snd (filter_tokens (TagFilter_new ts) toks) = snd (filter_tokens (TagFilter_new ts) [pre])))
   \<and> (pendingPrefix f \<noteq> [] \<longrightarrow>
        filter_char f c =
          (if \<exists>t\<in>set (tags f). prefix (CHR ''<'' # t) (pendingPrefix f @ [c])
           then (f\<lparr>inFilterTag := True, tagBuffer := pendingPrefix f @ [c], pendingPrefix := []\<rparr>, [])
           else if \<exists>t\<in>set (tags f). prefix (pendingPrefix f @ [c]) (CHR ''<'' # t)
           then (f\<lparr>pendingPrefix := pendingPrefix f @ [c]\<rparr>, [])
           else (f\<lparr>pendingPrefix := []\<rparr>, pendingPrefix f @ [c])))
   \<and> (pendingPrefix f = [] \<and> inFilterTag f \<longrightarrow> snd (filter_char f c) = [])"
  by (rule conjI[OF xaiartifact_scenario conjI[OF impI[OF held_back_tokens]
        conjI[OF impI[OF filter_char_pending] impI[OF in_tag_returns_nothing]]]])

text \<open>
  Claim C3 fails on the code when a \<open><\<close> follows a pending \<open><\<close>. The decision on a
  pending prefix is taken on the pending text as a whole: \<open><<\<close> is no prefix of an open
  tag, so both characters are returned and the second \<open><\<close> opens no new prefix. With
  the filter tags \<open>["xaiartifact"]\<close> and the tokens \<open>"Hello <"\<close>, \<open>"<xai"\<close> and
  \<open>"artifact>secret</xaiartifact> World"\<close>, the second call returns \<open>"<<xai"\<close>: it ends with
  \<open><xai\<close>, a proper prefix of the open tag \<open><xaiartifact\<close> that the next token completes,
  and the filter is neither holding a prefix nor inside a tag afterwards. The third
  call returns its token unchanged, so the tag and its content \<open>secret\<close> pass the filter.
\<close>

theorem partial_open_tag_returned_after_stray_bracket:
  "(case TagFilter_filter (TagFilter_new [''xaiartifact'']) ''Hello <'' of
      (f1, out1) \<Rightarrow>
        (case TagFilter_filter f1 ''<xai'' of
           (f2, out2) \<Rightarrow>
             (case TagFilter_filter f2 ''artifact>secret</xaiartifact> World'' of
                (f3, out3) \<Rightarrow>
                  out1 = ''Hello '' \<and> pendingPrefix f1 = ''<''
                  \<and> out2 = ''<<xai'' \<and> pendingPrefix f2 = [] \<and> inFilterTag f2 = False
                  \<and> out3 = ''artifact>secret</xaiartifact> World''
                  \<and> out1 @ out2 @ out3 = ''Hello <<xaiartifact>secret</xaiartifact> World'')))
   \<and> suffix ''<xai'' ''<<xai'' \<and> strict_prefix ''<xai'' (CHR ''<'' # ''xaiartifact'')"
  by code_simp

text \<open>The same within one token.\<close>

lemma tag_after_stray_bracket_passes:
  "snd (filter_tokens (TagFilter_new [''xaiartifact'']) [''<<xaiartifact>secret</xaiartifact>''])
     = ''<<xaiartifact>secret</xaiartifact>''"
  by code_simp

section \<open>Properties of the settings store\<close>




lemma saveSettings_Text:
  "getSettings_cf_clearance js_trim row = Inr cur \<Longrightarrow>
     saveSettings_grok js_trim row (Text v) = Inr (Json (Text (stripCfPrefix js_trim v)))"
  by (simp add: saveSettings_grok_def)

lemma getSettings_Text:
  "getSettings_cf_clearance js_trim (Json (Text s)) = Inr (stripCfPrefix js_trim s)"
  by (simp add: getSettings_cf_clearance_def)


lemma ascii_trim_examples:
  "ascii_trim [] = []"
  "ascii_trim ''abc'' = ''abc''"
  "ascii_trim ''cf_clearance=abc'' = ''cf_clearance=abc''"
  "ascii_trim ''cf_clearance=cf_clearance=abc'' = ''cf_clearance=cf_clearance=abc''"
  "ascii_trim ''cf_clearance=cf_clearance=cf_clearance=abc''
     = ''cf_clearance=cf_clearance=cf_clearance=abc''"
  by (simp_all add: ascii_trim_def is_space_def)

lemma getSettings_NoRow: "getSettings_cf_clearance ascii_trim NoRow = Inr []"
  by (simp add: getSettings_cf_clearance_def DEFAULTS_grok_def stripCfPrefix_def ascii_trim_examples)




text \<open>
  A value that carries the prefix three times is stored with two and read back with
  one of them.
\<close>

lemma nested_prefix_example:
  "saveSettings_grok ascii_trim NoRow (Text ''cf_clearance=cf_clearance=cf_clearance=abc'')
     = Inr (Json (Text ''cf_clearance=cf_clearance=abc''))
   \<and> getSettings_cf_clearance ascii_trim (Json (Text ''cf_clearance=cf_clearance=abc''))
     = Inr ''cf_clearance=abc''"
  by (simp add: saveSettings_Text[OF getSettings_NoRow] getSettings_Text stripCfPrefix_def
      ascii_trim_examples)

section \<open>Properties of the request statistics\<close>

lemma scan_row_success:
  "scan_success (scan_row t s r) =
     scan_success s + (if log_timestamp r \<ge> t \<and> isSuccessStatus (log_status r) then 1 else 0)"
  by (simp add: scan_row_def Let_def)

lemma scan_row_failed:
  "scan_failed (scan_row t s r) =
     scan_failed s + (if log_timestamp r \<ge> t \<and> \<not> isSuccessStatus (log_status r) then 1 else 0)"
  by (simp add: scan_row_def Let_def)

lemma scan_row_daily:
  "or_zero (dailyMap (scan_row t s r) k) =
     (if toIsoDateKey (log_timestamp r) = k
      then count_in (isSuccessStatus (log_status r)) (or_zero (dailyMap s k))
      else or_zero (dailyMap s k))"
  by (simp add: scan_row_def Let_def or_zero_def)

lemma foldl_scan_success:
  "scan_success (foldl (scan_row t) s rows) = scan_success s + n_successes (rows_since t rows)"
  by (induction rows arbitrary: s) (simp_all add: scan_row_success n_successes_def rows_since_def)

lemma foldl_scan_failed:
  "scan_failed (foldl (scan_row t) s rows) = scan_failed s + n_failures (rows_since t rows)"
  by (induction rows arbitrary: s) (simp_all add: scan_row_failed n_failures_def rows_since_def)

lemma foldl_scan_daily:
  "or_zero (dailyMap (foldl (scan_row t) s rows) k) =
     \<lparr>success = success (or_zero (dailyMap s k)) + n_successes (rows_of_day k rows),
      failed = failed (or_zero (dailyMap s k)) + n_failures (rows_of_day k rows)\<rparr>"
proof (induction rows arbitrary: s)
  case Nil
  show ?case by (simp add: n_successes_def n_failures_def rows_of_day_def)
next
  case (Cons r rows)
  show ?case
    unfolding foldl_Cons Cons.IH scan_row_daily
    by (simp add: n_successes_def n_failures_def rows_of_day_def count_in_def)
qed

lemma length_filter_sort_key:
  "length (filter P (sort_key f xs)) = length (filter P xs)"
  by (simp add: filter_sort)

lemma rows_since_last14:
  "rows_since (now - 24 * 60 * 60 * 1000) (last14_rows now tbl)
     = sort_key log_timestamp (rows_since (now - 24 * 60 * 60 * 1000) tbl)"
proof -
  have "filter (\<lambda>r. now - 24 * 60 * 60 * 1000 \<le> log_timestamp r)
          (filter (\<lambda>r. now - 14 * 24 * 60 * 60 * 1000 \<le> log_timestamp r) tbl)
        = filter (\<lambda>r. now - 24 * 60 * 60 * 1000 \<le> log_timestamp r) tbl"
    by (induction tbl) auto
  then show ?thesis
    by (simp add: rows_since_def last14_rows_def filter_sort)
qed

lemma n_successes_sort [simp]: "n_successes (sort_key f rows) = n_successes rows"
  by (simp add: n_successes_def filter_sort)

lemma n_failures_sort [simp]: "n_failures (sort_key f rows) = n_failures rows"
  by (simp add: n_failures_def filter_sort)

lemma rows_of_day_sort: "rows_of_day k (sort_key f rows) = sort_key f (rows_of_day k rows)"
  by (simp add: rows_of_day_def filter_sort)

lemma scan_logs_success:
  "scan_success (scan_logs now tbl) = n_successes (rows_since (now - 24 * 60 * 60 * 1000) tbl)"
  unfolding scan_logs_def foldl_scan_success rows_since_last14 by simp

lemma scan_logs_failed:
  "scan_failed (scan_logs now tbl) = n_failures (rows_since (now - 24 * 60 * 60 * 1000) tbl)"
  unfolding scan_logs_def foldl_scan_failed rows_since_last14 by simp

lemma scan_logs_daily:
  "or_zero (dailyMap (scan_logs now tbl) k) =
     \<lparr>success = n_successes (rows_of_day k (rows_since (now - 14 * 24 * 60 * 60 * 1000) tbl)),
      failed = n_failures (rows_of_day k (rows_since (now - 14 * 24 * 60 * 60 * 1000) tbl))\<rparr>"
  unfolding scan_logs_def foldl_scan_daily last14_rows_def rows_of_day_sort
  by (simp add: or_zero_def rows_since_def)

lemma successes_plus_failures: "n_successes rows + n_failures rows = length rows"
  unfolding n_successes_def n_failures_def
  by (induction rows) simp_all

lemma summary_getRequestStats:
  "summary (getRequestStats round_rate now tbl) =
     \<lparr>summary_total = length (rows_since (now - 24 * 60 * 60 * 1000) tbl),
      summary_success = n_successes (rows_since (now - 24 * 60 * 60 * 1000) tbl),
      summary_failed = n_failures (rows_since (now - 24 * 60 * 60 * 1000) tbl),
      summary_success_rate =
        success_rate_of round_rate (n_successes (rows_since (now - 24 * 60 * 60 * 1000) tbl))
          (length (rows_since (now - 24 * 60 * 60 * 1000) tbl))\<rparr>"
  unfolding getRequestStats_def Let_def scan_logs_success scan_logs_failed
  by (simp add: successes_plus_failures)

lemma rows_since_idem: "rows_since t (rows_since t tbl) = rows_since t tbl"
  by (simp add: rows_since_def)

text \<open>The keys of the 14 entries of \<open>daily\<close> are the 14 days that end with the day of \<open>now\<close>.\<close>

lemma daily_key:
  "toIsoDateKey (now - 13 * 24 * 60 * 60 * 1000 + int i * 24 * 60 * 60 * 1000)
     = toIsoDateKey now - 13 + int i"
proof -
  have "now - 13 * 24 * 60 * 60 * 1000 + int i * 24 * 60 * 60 * 1000
          = now + (int i - 13) * 86400000"
    by (simp add: algebra_simps)
  then show ?thesis
    by (simp add: toIsoDateKey_def)
qed

text \<open>A row of one of these days is a row of the scan window.\<close>

lemma day_in_window:
  assumes "toIsoDateKey now - 13 \<le> toIsoDateKey ts"
  shows "now - 14 * 24 * 60 * 60 * 1000 \<le> ts"
proof -
  have a: "(ts div 86400000) * 86400000 \<le> ts"
    by simp
  have b: "now < (now div 86400000) * 86400000 + 86400000"
    using pos_mod_bound[of 86400000 now] mult_div_mod_eq[of 86400000 now] by linarith
  have c: "(now div 86400000 - 13) * 86400000 \<le> (ts div 86400000) * 86400000"
    using assms by (simp add: toIsoDateKey_def)
  show ?thesis using a b c by (simp add: algebra_simps)
qed

lemma rows_of_day_window:
  assumes "toIsoDateKey now - 13 \<le> k"
  shows "rows_of_day k (rows_since (now - 14 * 24 * 60 * 60 * 1000) tbl) = rows_of_day k tbl"
proof -
  have "\<And>r. toIsoDateKey (log_timestamp r) = k \<Longrightarrow>
            now - 14 * 24 * 60 * 60 * 1000 \<le> log_timestamp r"
    using assms day_in_window by blast
  then have "filter (\<lambda>r. toIsoDateKey (log_timestamp r) = k)
               (filter (\<lambda>r. now - 14 * 24 * 60 * 60 * 1000 \<le> log_timestamp r) tbl)
             = filter (\<lambda>r. toIsoDateKey (log_timestamp r) = k) tbl"
    by (induction tbl) auto
  then show ?thesis by (simp add: rows_of_day_def rows_since_def)
qed

lemma daily_getRequestStats:
  "daily (getRequestStats round_rate now tbl) =
     map (\<lambda>i. (toIsoDateKey now - 13 + int i,
               n_successes (rows_of_day (toIsoDateKey now - 13 + int i) tbl),
               n_failures (rows_of_day (toIsoDateKey now - 13 + int i) tbl))) [0..<14]"
proof -
  have w: "\<And>i. rows_of_day (toIsoDateKey now - 13 + int i)
                  (rows_since (now - 14 * 24 * 60 * 60 * 1000) tbl)
                = rows_of_day (toIsoDateKey now - 13 + int i) tbl"
    by (rule rows_of_day_window) simp
  have e: "\<And>i. or_zero (dailyMap (scan_logs now tbl) (toIsoDateKey now - 13 + int i)) =
       \<lparr>success = n_successes (rows_of_day (toIsoDateKey now - 13 + int i) tbl),
        failed = n_failures (rows_of_day (toIsoDateKey now - 13 + int i) tbl)\<rparr>"
    unfolding scan_logs_daily w ..
  show ?thesis
    unfolding getRequestStats_def Let_def RequestStats.simps daily_key e by simp
qed

text \<open>
  Claim C10 as stated fails for the rows of the first day of the scan window. At
  \<open>now = 1000000000000\<close> the row with the timestamp \<open>now - 14d\<close> is selected by the query
  (it is in the 14-day scan window), it is older than 24 hours, and it is counted in
  \<open>dailyMap\<close> under its day; but the 14 entries of the returned \<open>daily\<close> list start with
  the day of \<open>now - 13d\<close>, so all of them are empty: the row contributes to no daily
  bucket of the result.
\<close>

theorem scanned_row_in_no_daily_bucket:
  "last14_rows 1000000000000 [\<lparr>log_timestamp = 1000000000000 - 14 * 24 * 60 * 60 * 1000, log_status = 200\<rparr>]
     = [\<lparr>log_timestamp = 1000000000000 - 14 * 24 * 60 * 60 * 1000, log_status = 200\<rparr>]
   \<and> (1000000000000 - 14 * 24 * 60 * 60 * 1000 :: int) < 1000000000000 - 24 * 60 * 60 * 1000
   \<and> or_zero (dailyMap (scan_logs 1000000000000
        [\<lparr>log_timestamp = 1000000000000 - 14 * 24 * 60 * 60 * 1000, log_status = 200\<rparr>])
        (toIsoDateKey (1000000000000 - 14 * 24 * 60 * 60 * 1000)))
       = \<lparr>success = 1, failed = 0\<rparr>
   \<and> map snd (daily (getRequestStats exact_rate 1000000000000
        [\<lparr>log_timestamp = 1000000000000 - 14 * 24 * 60 * 60 * 1000, log_status = 200\<rparr>]))
       = replicate 14 (0, 0)"
  by code_simp

text \<open>
  Claim C10, amended. The summary of \<open>getRequestStats\<close> counts the rows of the last 24
  hours and no others: \<open>total\<close>, \<open>success\<close> and \<open>failed\<close> are the numbers of rows, of
  successful rows and of failed rows with a timestamp of at least \<open>now - 24h\<close>, and
  \<open>success_rate\<close> is computed from these numbers alone; the summary is the same when every
  older row is removed from the table. The returned \<open>daily\<close> list has one entry for
  each of the 14 UTC days that end with the day of \<open>now\<close>, and the entry of a day counts
  every row of the table of that day, whether or not it is older than 24 hours. A row
  of another day, such as a row of the scan window on the day of \<open>now - 14d\<close>, is in no
  entry.
\<close>

theorem summary_counts_last_24_hours_only:
  "summary (getRequestStats round_rate now tbl) =
     \<lparr>summary_total = length (rows_since (now - 24 * 60 * 60 * 1000) tbl),
      summary_success = n_successes (rows_since (now - 24 * 60 * 60 * 1000) tbl),
      summary_failed = n_failures (rows_since (now - 24 * 60 * 60 * 1000) tbl),
      summary_success_rate =
        success_rate_of round_rate (n_successes (rows_since (now - 24 * 60 * 60 * 1000) tbl))
          (length (rows_since (now - 24 * 60 * 60 * 1000) tbl))\<rparr>
   \<and> summary (getRequestStats round_rate now tbl)
       = summary (getRequestStats round_rate now (rows_since (now - 24 * 60 * 60 * 1000) tbl))
   \<and> daily (getRequestStats round_rate now tbl) =
       map (\<lambda>i. (toIsoDateKey now - 13 + int i,
                 n_successes (rows_of_day (toIsoDateKey now - 13 + int i) tbl),
                 n_failures (rows_of_day (toIsoDateKey now - 13 + int i) tbl))) [0..<14]"
proof -
  have "summary (getRequestStats round_rate now tbl)
       = summary (getRequestStats round_rate now (rows_since (now - 24 * 60 * 60 * 1000) tbl))"
    unfolding summary_getRequestStats rows_since_idem ..
  then show ?thesis
    using summary_getRequestStats[of round_rate now tbl] daily_getRequestStats[of round_rate now tbl]
    by simp
qed

text \<open>
  An example: of three rows, the one that is two days old is in no counter of the
  summary and in the daily entry of its day.
\<close>

lemma old_row_example:
  "summary (getRequestStats exact_rate 1000000000000
      [\<lparr>log_timestamp = 1000000000000, log_status = 200\<rparr>,
       \<lparr>log_timestamp = 1000000000000 - 2 * 86400000, log_status = 200\<rparr>,
       \<lparr>log_timestamp = 1000000000000 - 3600000, log_status = 500\<rparr>])
   = \<lparr>summary_total = 2, summary_success = 1, summary_failed = 1, summary_success_rate = 50\<rparr>
   \<and> drop 11 (daily (getRequestStats exact_rate 1000000000000
      [\<lparr>log_timestamp = 1000000000000, log_status = 200\<rparr>,
       \<lparr>log_timestamp = 1000000000000 - 2 * 86400000, log_status = 200\<rparr>,
       \<lparr>log_timestamp = 1000000000000 - 3600000, log_status = 500\<rparr>]))
   = [(11572, 1, 0), (11573, 0, 0), (11574, 1, 1)]"
proof -
  have a: "summary (getRequestStats exact_rate 1000000000000
      [\<lparr>log_timestamp = 1000000000000, log_status = 200\<rparr>,
       \<lparr>log_timestamp = 1000000000000 - 2 * 86400000, log_status = 200\<rparr>,
       \<lparr>log_timestamp = 1000000000000 - 3600000, log_status = 500\<rparr>])
   = \<lparr>summary_total = 2, summary_success = 1, summary_failed = 1, summary_success_rate = 50\<rparr>"
    unfolding summary_getRequestStats
    by (simp add: rows_since_def n_successes_def n_failures_def isSuccessStatus_def
        success_rate_of_def exact_rate_def)
  have b: "drop 11 (daily (getRequestStats exact_rate 1000000000000
      [\<lparr>log_timestamp = 1000000000000, log_status = 200\<rparr>,
       \<lparr>log_timestamp = 1000000000000 - 2 * 86400000, log_status = 200\<rparr>,
       \<lparr>log_timestamp = 1000000000000 - 3600000, log_status = 500\<rparr>]))
   = [(11572, 1, 0), (11573, 0, 0), (11574, 1, 1)]"
    unfolding daily_getRequestStats by code_simp
  show ?thesis by (rule conjI[OF a b])
qed

section \<open>Properties of the streaming transcoder\<close>

subsection \<open>Reporting and the idle timeout\<close>

lemma enqueue_fields [simp]:
  "enqueued (controller_enqueue c s) = enqueued s @ [c]"
  "controller_closed (controller_enqueue c s) = controller_closed s"
  "onFinish_calls (controller_enqueue c s) = onFinish_calls s"
  "finalStatus (controller_enqueue c s) = finalStatus s"
  "firstReceived (controller_enqueue c s) = firstReceived s"
  "isVideo (controller_enqueue c s) = isVideo s"
  "isImage (controller_enqueue c s) = isImage s"
  "startTime (controller_enqueue c s) = startTime s"
  "lastChunkTime (controller_enqueue c s) = lastChunkTime s"
  "nowCalls (controller_enqueue c s) = nowCalls s"
  "currentModel (controller_enqueue c s) = currentModel s"
  "tagFilter (controller_enqueue c s) = tagFilter s"
  "buffer (controller_enqueue c s) = buffer s"
  "isThinking (controller_enqueue c s) = isThinking s"
  "thinkingFinished (controller_enqueue c s) = thinkingFinished s"
  by (simp_all add: controller_enqueue_def)

lemma running_enqueue:
  "running s \<Longrightarrow> plain_chunk c \<Longrightarrow> running (controller_enqueue c s)"
  by (simp add: running_def)

lemma finished_once_stop:
  "onFinish_calls s = [] \<Longrightarrow> finished_once C (controller_close (call_onFinish R C st s))"
  by (simp add: finished_once_def controller_close_def call_onFinish_def date_now_def)

lemma finished_once_stop_and_close:
  "running s \<Longrightarrow> finished_once C (stop_and_close R C s)"
  unfolding stop_and_close_def flushStop_def
  by (rule finished_once_stop) (simp add: running_def)

lemma finished_once_after_loop:
  "running s \<Longrightarrow> finished_once C (after_loop R C s)"
  unfolding after_loop_def
  by (rule finished_once_stop) (simp add: running_def)

lemma finished_once_catch_block:
  "running s \<Longrightarrow> finished_once C (catch_block R C e s)"
  unfolding catch_block_def flushStop_def
  by (cases e) (auto intro!: finished_once_stop simp: running_def)

lemma running_bracket_thinking:
  "running s \<Longrightarrow> running (bracket_thinking cur st content s)"
  by (simp add: bracket_thinking_def running_def makeChunk_def)

lemma running_text_frame:
  "running s \<Longrightarrow> running (text_frame C grok s)"
proof -
  assume r: "running s"
  have t: "\<And>tf. running (s\<lparr>tagFilter := tf\<rparr>)" using r by (simp add: running_def)
  show ?thesis
    unfolding text_frame_def
    by (auto split: option.splits TokenValue.splits prod.splits
        intro!: running_bracket_thinking t simp: r)
qed

lemma running_video_frame:
  "running s \<Longrightarrow> firstReceived s \<Longrightarrow> running (video_frame R C v s) \<and> firstReceived (video_frame R C v s)"
  by (simp add: video_frame_def Let_def running_def makeChunk_def)

lemma image_frame_exits:
  assumes "running s" and "firstReceived s"
  shows "case image_frame R C grok s of
           Continue s' \<Rightarrow> running s' \<and> firstReceived s'
         | Return s' \<Rightarrow> finished_once C s'"
  using assms
  by (auto simp: image_frame_def Let_def makeChunk_def running_def
      intro!: finished_once_stop split: option.splits TokenValue.splits)

lemma firstReceived_bracket [simp]:
  "firstReceived (bracket_thinking cur st content s) = firstReceived s"
  by (simp add: bracket_thinking_def)

lemma firstReceived_text_frame [simp]:
  "firstReceived (text_frame C grok s) = firstReceived s"
  by (simp add: text_frame_def split: option.splits TokenValue.splits prod.splits)

lemma process_frame_exits:
  assumes "running s" and "firstReceived s"
  shows "case process_frame R C data s of
           Continue s' \<Rightarrow> running s' \<and> firstReceived s'
         | Return s' \<Rightarrow> finished_once C s'"
proof (cases "truthy_string (data_error_message data)")
  case (Some message)
  then show ?thesis using assms
    by (auto simp: process_frame_def running_def intro!: finished_once_stop)
next
  case None
  show ?thesis
  proof (cases "data_result_response data")
    case n: None
    then show ?thesis using None assms by (simp add: process_frame_def)
  next
    case (Some grok)
    define s1 where "s1 = (case grok_userResponse_model grok of
                          Some m \<Rightarrow> if str_trim R m \<noteq> [] then s\<lparr>currentModel := str_trim R m\<rparr> else s
                        | None \<Rightarrow> s)"
    have s1: "running s1" "firstReceived s1"
      using assms by (auto simp: s1_def running_def split: option.splits)
    show ?thesis
    proof (cases "grok_streamingVideoGenerationResponse grok")
      case v: (Some videoResp)
      show ?thesis
        using running_video_frame[OF s1, of R C videoResp] None Some v
        by (simp add: process_frame_def s1_def[symmetric])
    next
      case v: None
      define s2 where "s2 = (if grok_imageAttachmentInfo grok then s1\<lparr>isImage := True\<rparr> else s1)"
      have s2: "running s2" "firstReceived s2"
        using s1 by (auto simp: s2_def running_def)
      have eq: "process_frame R C data s =
          (if isImage s2 then image_frame R C grok s2 else Continue (text_frame C grok s2))"
        using None Some v by (simp add: process_frame_def Let_def s1_def[symmetric] s2_def[symmetric])
      show ?thesis
        unfolding eq using image_frame_exits[OF s2, where R = R and C = C and grok = grok] running_text_frame[OF s2(1), of C grok] s2(2)
        by simp
    qed
  qed
qed

lemma process_lines_exits:
  assumes "running s"
  shows "case process_lines R C ls s of
           Continue s' \<Rightarrow> running s'
         | Return s' \<Rightarrow> finished_once C s'"
  using assms
proof (induction ls arbitrary: s)
  case Nil
  then show ?case by simp
next
  case (Cons raw rest)
  show ?case
  proof (cases "str_trim R raw = []")
    case True
    then show ?thesis using Cons by simp
  next
    case False
    show ?thesis
    proof (cases "json_parse R (str_trim R raw)")
      case None
      then show ?thesis using False Cons by simp
    next
      case (Some data)
      define s1 where "s1 = (s\<lparr>firstReceived := True, nowCalls := nowCalls s + 1,
                               lastChunkTime := clock R (nowCalls s)\<rparr>)"
      have s1: "running s1" "firstReceived s1"
        using Cons.prems by (simp_all add: s1_def running_def)
      have eq: "process_lines R C (raw # rest) s =
         (case process_frame R C data s1 of
            Continue s2 \<Rightarrow> process_lines R C rest s2 | Return s2 \<Rightarrow> Return s2)"
        using False Some by (simp add: date_now_def s1_def)
      show ?thesis
        unfolding eq using process_frame_exits[OF s1, where R = R and C = C and data = data] Cons.IH
        by (cases "process_frame R C data s1") simp_all
    qed
  qed
qed


lemma running_tick: "running s \<Longrightarrow> running (s\<lparr>nowCalls := n\<rparr>)"
  by (simp add: running_def)

lemma running_buffer: "running s \<Longrightarrow> running (s\<lparr>buffer := b\<rparr>)"
  by (simp add: running_def)

lemma run_loop_exits:
  assumes "running s"
  shows "case run_loop R C reads s of
           Returned s' \<Rightarrow> finished_once C s'
         | Broke s' \<Rightarrow> running s'
         | Threw e s' \<Rightarrow> running s'
         | Pending s' \<Rightarrow> running s'"
  using assms
proof (induction reads arbitrary: s)
  case Nil
  then show ?case by simp
next
  case (Cons res rest)
  define s1 where "s1 = s\<lparr>nowCalls := nowCalls s + 1\<rparr>"
  have s1: "running s1" using Cons.prems by (simp add: s1_def running_tick)
  have stop: "finished_once C (stop_and_close R C s1)"
    by (rule finished_once_stop_and_close[OF s1])
  show ?case
  proof (cases "check_deadlines C s1 (clock R (nowCalls s))")
    case StopNow
    then show ?thesis using stop by (simp add: date_now_def s1_def)
  next
    case (IdleTimeout x)
    then show ?thesis using s1 by (simp add: date_now_def s1_def)
  next
    case (ReadFor ms)
    show ?thesis
    proof (cases "ms \<le> 0")
      case True
      then show ?thesis using ReadFor stop by (simp add: date_now_def s1_def)
    next
      case False
      show ?thesis
      proof (cases res)
        case ReadTimeout
        then show ?thesis using ReadFor False stop by (simp add: date_now_def s1_def)
      next
        case ReadDone
        then show ?thesis using ReadFor False s1 by (simp add: date_now_def s1_def)
      next
        case ReadNoValue
        then show ?thesis using ReadFor False Cons.IH[OF s1] by (simp add: date_now_def s1_def)
      next
        case (ReadThrows e)
        then show ?thesis using ReadFor False s1 by (simp add: date_now_def s1_def)
      next
        case (ReadValue v)
        obtain ls remaining where sp: "split_lines (buffer s1 @ v) [] = (ls, remaining)"
          by (cases "split_lines (buffer s1 @ v) []")
        have eq: "run_loop R C (res # rest) s =
            (case process_lines R C ls (s1\<lparr>buffer := remaining\<rparr>) of
               Continue s2 \<Rightarrow> run_loop R C rest s2 | Return s2 \<Rightarrow> Returned s2)"
          using ReadFor False ReadValue sp by (simp add: date_now_def s1_def)
        show ?thesis
          unfolding eq
          using process_lines_exits[OF running_buffer[OF s1, of remaining], where R = R and C = C and ls = ls]
            Cons.IH
          by (cases "process_lines R C ls (s1\<lparr>buffer := remaining\<rparr>)") simp_all
      qed
    qed
  qed
qed

lemma running_initial: "running (initial_state R C t0)"
  by (simp add: running_def initial_state_def)

text \<open>
  With an upstream body, every path that closes the stream has called \<open>onFinish\<close> exactly
  once before (when the callback is supplied), and a stream that is still open has not
  called it: the deadline stops, the per-read timeout, the upstream error frame, the
  image result, the end of the body and the three cases of the \<open>catch\<close> block.
\<close>

lemma onFinish_once_when_body_present:
  "res_closed (createOpenAiStreamFromGrokNdjson R C (Some reads)) \<Longrightarrow>
     length (res_onFinish (createOpenAiStreamFromGrokNdjson R C (Some reads)))
       = (if opt_onFinish C then 1 else 0)"
  using run_loop_exits[OF running_initial[of R C "clock R 0"], where R = R and C = C and reads = reads]
    finished_once_after_loop[where C = C and R = R] finished_once_catch_block[where C = C and R = R]
  by (cases "run_loop R C reads (initial_state R C (clock R 0))")
     (auto simp: createOpenAiStreamFromGrokNdjson_def result_of_def finished_once_def running_def)

lemma onFinish_not_before_close:
  "\<not> res_closed (createOpenAiStreamFromGrokNdjson R C (Some reads)) \<Longrightarrow>
     res_onFinish (createOpenAiStreamFromGrokNdjson R C (Some reads)) = []"
  using run_loop_exits[OF running_initial[of R C "clock R 0"], where R = R and C = C and reads = reads]
    finished_once_after_loop[where C = C and R = R] finished_once_catch_block[where C = C and R = R]
  by (cases "run_loop R C reads (initial_state R C (clock R 0))")
     (auto simp: createOpenAiStreamFromGrokNdjson_def result_of_def finished_once_def running_def)

text \<open>
  Claim C1 fails on one terminal path. When the upstream response has no body, \<open>start\<close>
  sends the \<open>Empty response\<close> chunk with the finish reason \<open>error\<close> and the \<open>[DONE]\<close>
  marker, closes the stream and returns; \<open>onFinish\<close> is not called although it is supplied.
\<close>

theorem missing_body_skips_onFinish:
  "createOpenAiStreamFromGrokNdjson R (C\<lparr>opt_onFinish := True\<rparr>) None =
     \<lparr>res_output = [Chunk ''grok-4-mini-thinking-tahoe'' ''Empty response'' (Some FinishError), DoneMarker],
      res_closed = True, res_onFinish = [], res_released = False\<rparr>"
  by (simp add: createOpenAiStreamFromGrokNdjson_def makeChunk_def makeDone_def)

text \<open>A longer body continues where the shorter one left the stream waiting.\<close>

lemma run_loop_append:
  "run_loop R C (pre @ rest) s =
     (case run_loop R C pre s of Pending s' \<Rightarrow> run_loop R C rest s' | r \<Rightarrow> r)"
proof (induction pre arbitrary: s)
  case Nil
  show ?case by simp
next
  case (Cons res pre)
  show ?case
    by (simp add: Cons.IH split: prod.splits deadline.splits read_result.splits frame_exit.splits)
qed


lemma stop_and_close_result:
  assumes "onFinish_calls s = []"
  shows "result_of True (stop_and_close R C s) =
     \<lparr>res_output = enqueued s @ [Chunk (currentModel s) [] (Some FinishStop), DoneMarker],
      res_closed = True,
      res_onFinish = (if opt_onFinish C
                      then [(finalStatus s, of_int (clock R (nowCalls s) - startTime s) / 1000)]
                      else []),
      res_released = True\<rparr>"
  using assms
  by (simp add: result_of_def stop_and_close_def flushStop_def call_onFinish_def date_now_def
      controller_close_def controller_enqueue_def makeChunk_def makeDone_def)

lemma idle_catch_result:
  assumes "onFinish_calls s = []"
  shows "result_of True (catch_block R C (StreamIdleTimeoutError x) s) =
     \<lparr>res_output = enqueued s @ [Chunk (currentModel s) [] (Some FinishStop), DoneMarker],
      res_closed = True,
      res_onFinish = (if opt_onFinish C
                      then [(finalStatus s, of_int (clock R (nowCalls s) - startTime s) / 1000)]
                      else []),
      res_released = True\<rparr>"
  using assms
  by (simp add: result_of_def catch_block_def flushStop_def call_onFinish_def date_now_def
      controller_close_def controller_enqueue_def makeChunk_def makeDone_def)

lemma video_idle_deadline:
  assumes "firstReceived s" and "isVideo s" and "0 < videoIdleTimeoutMs C"
      and "videoIdleTimeoutMs C < now - lastChunkTime s"
  shows "check_deadlines C s now = StopNow
       \<or> check_deadlines C s now = IdleTimeout (of_int (now - lastChunkTime s) / 1000)"
  using assms by (simp add: check_deadlines_def Let_def)

text \<open>
  In video mode the ordinary idle timeout does not enter the deadline check: within
  the video idle timeout, the chunk timeout and the total timeout the round reads.
\<close>

lemma video_within_deadlines:
  assumes "firstReceived s" and "isVideo s"
      and "now - lastChunkTime s \<le> videoIdleTimeoutMs C"
      and "now - lastChunkTime s \<le> chunkTimeoutMs C"
      and "0 < chunkTimeoutMs C"
      and "totalTimeoutMs C = 0 \<or> now - startTime s < totalTimeoutMs C"
  shows "\<exists>ms. check_deadlines C s now = ReadFor ms \<and> 0 < ms"
  using assms by (auto simp: check_deadlines_def Let_def)

text \<open>
  Claim C4. Let the stream be in video mode at the top of a round of the loop (after
  any reads \<open>pre\<close>). When the video idle timeout is set (positive) and the time since
  the last chunk at this deadline check exceeds it, the stream ends cleanly whatever
  the upstream would deliver next: to the plain chunks sent so far it adds the chunk
  with empty content and finish reason \<open>stop\<close> and the \<open>[DONE]\<close> marker, it closes, and
  \<open>onFinish\<close> (if supplied) is called once with the status 200. It is the video idle
  timeout that decides, not the ordinary idle timeout: when the time since the last
  chunk is within the video idle timeout (and within the chunk and the total timeout),
  the round goes on to its read, however small the ordinary idle timeout is; after a
  read without data the stream is open and has sent and reported nothing more. No chunk
  sent before has a finish reason, so none has the finish reason \<open>error\<close>.
\<close>

theorem video_idle_timeout_stops_cleanly:
  assumes "run_loop R C pre (initial_state R C (clock R 0)) = Pending s"
      and "isVideo s"
  shows "(0 < videoIdleTimeoutMs C
          \<and> videoIdleTimeoutMs C < clock R (nowCalls s) - lastChunkTime s \<longrightarrow>
            createOpenAiStreamFromGrokNdjson R C (Some (pre @ res # rest)) =
              \<lparr>res_output = enqueued s @ [Chunk (currentModel s) [] (Some FinishStop), DoneMarker],
               res_closed = True,
               res_onFinish = (if opt_onFinish C
                               then [(200, of_int (clock R (Suc (nowCalls s)) - startTime s) / 1000)]
                               else []),
               res_released = True\<rparr>)
       \<and> (clock R (nowCalls s) - lastChunkTime s \<le> videoIdleTimeoutMs C
          \<and> clock R (nowCalls s) - lastChunkTime s \<le> chunkTimeoutMs C
          \<and> 0 < chunkTimeoutMs C
          \<and> (totalTimeoutMs C = 0 \<or> clock R (nowCalls s) - startTime s < totalTimeoutMs C) \<longrightarrow>
            createOpenAiStreamFromGrokNdjson R C (Some (pre @ [ReadNoValue])) =
              \<lparr>res_output = enqueued s, res_closed = False, res_onFinish = [],
               res_released = False\<rparr>)
       \<and> list_all plain_chunk (enqueued s)"
proof -
  have r: "running s"
    using run_loop_exits[OF running_initial[of R C "clock R 0"], where R = R and C = C and reads = pre]
      assms(1) by simp
  define s1 where "s1 = s\<lparr>nowCalls := Suc (nowCalls s)\<rparr>"
  have s1: "onFinish_calls s1 = []" "finalStatus s1 = 200" "enqueued s1 = enqueued s"
    "currentModel s1 = currentModel s" "startTime s1 = startTime s" "nowCalls s1 = Suc (nowCalls s)"
    using r by (simp_all add: s1_def running_def)
  have f: "firstReceived s1" "isVideo s1" "lastChunkTime s1 = lastChunkTime s"
    using r assms(2) by (auto simp: s1_def running_def)
  have c1: "controller_closed s1 = False"
    using r by (simp add: s1_def running_def)
  have loop: "\<And>reads. run_loop R C (pre @ reads) (initial_state R C (clock R 0)) = run_loop R C reads s"
    by (simp add: run_loop_append assms(1))
  have A: "0 < videoIdleTimeoutMs C
          \<and> videoIdleTimeoutMs C < clock R (nowCalls s) - lastChunkTime s \<longrightarrow>
            createOpenAiStreamFromGrokNdjson R C (Some (pre @ res # rest)) =
              \<lparr>res_output = enqueued s @ [Chunk (currentModel s) [] (Some FinishStop), DoneMarker],
               res_closed = True,
               res_onFinish = (if opt_onFinish C
                               then [(200, of_int (clock R (Suc (nowCalls s)) - startTime s) / 1000)]
                               else []),
               res_released = True\<rparr>"
  proof (intro impI, elim conjE)
    assume h: "0 < videoIdleTimeoutMs C" "videoIdleTimeoutMs C < clock R (nowCalls s) - lastChunkTime s"
    have d: "check_deadlines C s1 (clock R (nowCalls s)) = StopNow
         \<or> check_deadlines C s1 (clock R (nowCalls s))
             = IdleTimeout (of_int (clock R (nowCalls s) - lastChunkTime s1) / 1000)"
      by (rule video_idle_deadline[OF f(1,2) h(1)]) (simp add: f(3) h(2))
    have "createOpenAiStreamFromGrokNdjson R C (Some (pre @ res # rest)) =
             \<lparr>res_output = enqueued s1 @ [Chunk (currentModel s1) [] (Some FinishStop), DoneMarker],
              res_closed = True,
              res_onFinish = (if opt_onFinish C
                              then [(finalStatus s1, of_int (clock R (nowCalls s1) - startTime s1) / 1000)]
                              else []),
              res_released = True\<rparr>"
      using d
    proof
      assume "check_deadlines C s1 (clock R (nowCalls s)) = StopNow"
      then show ?thesis
        unfolding createOpenAiStreamFromGrokNdjson_def option.case loop
        by (simp add: date_now_def s1_def[symmetric] stop_and_close_result[OF s1(1)])
    next
      assume "check_deadlines C s1 (clock R (nowCalls s))
             = IdleTimeout (of_int (clock R (nowCalls s) - lastChunkTime s1) / 1000)"
      then show ?thesis
        unfolding createOpenAiStreamFromGrokNdjson_def option.case loop
        by (simp add: date_now_def s1_def[symmetric] idle_catch_result[OF s1(1)])
    qed
    then show "createOpenAiStreamFromGrokNdjson R C (Some (pre @ res # rest)) =
              \<lparr>res_output = enqueued s @ [Chunk (currentModel s) [] (Some FinishStop), DoneMarker],
               res_closed = True,
               res_onFinish = (if opt_onFinish C
                               then [(200, of_int (clock R (Suc (nowCalls s)) - startTime s) / 1000)]
                               else []),
               res_released = True\<rparr>"
      unfolding s1 .
  qed
  have B: "clock R (nowCalls s) - lastChunkTime s \<le> videoIdleTimeoutMs C
          \<and> clock R (nowCalls s) - lastChunkTime s \<le> chunkTimeoutMs C
          \<and> 0 < chunkTimeoutMs C
          \<and> (totalTimeoutMs C = 0 \<or> clock R (nowCalls s) - startTime s < totalTimeoutMs C) \<longrightarrow>
            createOpenAiStreamFromGrokNdjson R C (Some (pre @ [ReadNoValue])) =
              \<lparr>res_output = enqueued s, res_closed = False, res_onFinish = [],
               res_released = False\<rparr>"
  proof (intro impI, elim conjE)
    assume h: "clock R (nowCalls s) - lastChunkTime s \<le> videoIdleTimeoutMs C"
      "clock R (nowCalls s) - lastChunkTime s \<le> chunkTimeoutMs C"
      "0 < chunkTimeoutMs C"
      "totalTimeoutMs C = 0 \<or> clock R (nowCalls s) - startTime s < totalTimeoutMs C"
    have "\<exists>ms. check_deadlines C s1 (clock R (nowCalls s)) = ReadFor ms \<and> 0 < ms"
      by (rule video_within_deadlines[OF f(1,2)]) (simp_all add: f(3) s1(5) h)
    then obtain ms where ms: "check_deadlines C s1 (clock R (nowCalls s)) = ReadFor ms" "0 < ms"
      by (elim exE conjE)
    have "run_loop R C [ReadNoValue] s = Pending s1"
      using ms by (simp add: date_now_def s1_def[symmetric])
    then show "createOpenAiStreamFromGrokNdjson R C (Some (pre @ [ReadNoValue])) =
              \<lparr>res_output = enqueued s, res_closed = False, res_onFinish = [],
               res_released = False\<rparr>"
      unfolding createOpenAiStreamFromGrokNdjson_def option.case loop
      by (simp add: result_of_def s1 c1)
  qed
  have P: "list_all plain_chunk (enqueued s)"
    using r by (simp add: running_def)
  show ?thesis by (rule conjI[OF A conjI[OF B P]])
qed

text \<open>
  The scenario of the specification: the ordinary idle timeout is 5 seconds and the
  video idle timeout 60 seconds; a video frame arrives at time 0. A deadline check
  after 30 seconds of silence lets the stream read on, and one after 61 seconds ends it.
\<close>

lemma example_video_run_30:
  "run_loop (example_runtime (\<lambda>n. if n < 3 then 0 else 30000)) (example_opts (DEFAULTS_grok\<lparr>stream_idle_timeout := Some 5, video_idle_timeout := Some 60\<rparr>))
      [ReadValue (''video'' @ [NL])] (initial_state (example_runtime (\<lambda>n. if n < 3 then 0 else 30000)) (example_opts (DEFAULTS_grok\<lparr>stream_idle_timeout := Some 5, video_idle_timeout := Some 60\<rparr>)) 0)
   = Pending \<lparr>nowCalls = 3,
     enqueued = [Chunk ''grok-4-mini-thinking-tahoe'' (''<think>'' @ video_progress_text @ ''10%'' @ [NL]) None],
     controller_closed = False, onFinish_calls = [], startTime = 0,
     finalStatus = 200, lastChunkTime = 0, firstReceived = True,
     currentModel = ''grok-4-mini-thinking-tahoe'', isImage = False,
     isVideo = True, isThinking = False, thinkingFinished = False,
     videoProgressStarted = True, lastVideoProgress = 10, buffer = [],
     tagFilter = \<lparr>tags = [''xaiartifact'', ''xai:tool_usage_card''],
          inFilterTag = False, tagBuffer = [], pendingPrefix = []\<rparr>\<rparr>"
  by code_simp

lemma example_video_run_61:
  "run_loop (example_runtime (\<lambda>n. if n < 3 then 0 else 61000)) (example_opts (DEFAULTS_grok\<lparr>stream_idle_timeout := Some 5, video_idle_timeout := Some 60\<rparr>))
      [ReadValue (''video'' @ [NL])] (initial_state (example_runtime (\<lambda>n. if n < 3 then 0 else 61000)) (example_opts (DEFAULTS_grok\<lparr>stream_idle_timeout := Some 5, video_idle_timeout := Some 60\<rparr>)) 0)
   = Pending \<lparr>nowCalls = 3,
     enqueued = [Chunk ''grok-4-mini-thinking-tahoe'' (''<think>'' @ video_progress_text @ ''10%'' @ [NL]) None],
     controller_closed = False, onFinish_calls = [], startTime = 0,
     finalStatus = 200, lastChunkTime = 0, firstReceived = True,
     currentModel = ''grok-4-mini-thinking-tahoe'', isImage = False,
     isVideo = True, isThinking = False, thinkingFinished = False,
     videoProgressStarted = True, lastVideoProgress = 10, buffer = [],
     tagFilter = \<lparr>tags = [''xaiartifact'', ''xai:tool_usage_card''],
          inFilterTag = False, tagBuffer = [], pendingPrefix = []\<rparr>\<rparr>"
  by code_simp

lemma example_video_timeouts:
  "idleTimeoutMs (example_opts (DEFAULTS_grok\<lparr>stream_idle_timeout := Some 5, video_idle_timeout := Some 60\<rparr>)) = 5000"
  "videoIdleTimeoutMs (example_opts (DEFAULTS_grok\<lparr>stream_idle_timeout := Some 5, video_idle_timeout := Some 60\<rparr>)) = 60000"
  "chunkTimeoutMs (example_opts (DEFAULTS_grok\<lparr>stream_idle_timeout := Some 5, video_idle_timeout := Some 60\<rparr>)) = 120000"
  "totalTimeoutMs (example_opts (DEFAULTS_grok\<lparr>stream_idle_timeout := Some 5, video_idle_timeout := Some 60\<rparr>)) = 600000"
  by (simp_all add: idleTimeoutMs_def videoIdleTimeoutMs_def chunkTimeoutMs_def totalTimeoutMs_def
      example_opts_def DEFAULTS_grok_def seconds_to_ms_def)

theorem video_idle_timeout_stops_cleanly_witness:
  "idleTimeoutMs (example_opts (DEFAULTS_grok\<lparr>stream_idle_timeout := Some 5, video_idle_timeout := Some 60\<rparr>)) = 5000
   \<and> videoIdleTimeoutMs (example_opts (DEFAULTS_grok\<lparr>stream_idle_timeout := Some 5, video_idle_timeout := Some 60\<rparr>)) = 60000
   \<and> (case run_loop (example_runtime (\<lambda>n. if n < 3 then 0 else 30000)) (example_opts (DEFAULTS_grok\<lparr>stream_idle_timeout := Some 5, video_idle_timeout := Some 60\<rparr>))
             [ReadValue (''video'' @ [NL])] (initial_state (example_runtime (\<lambda>n. if n < 3 then 0 else 30000)) (example_opts (DEFAULTS_grok\<lparr>stream_idle_timeout := Some 5, video_idle_timeout := Some 60\<rparr>)) 0) of
         Pending s \<Rightarrow> isVideo s \<and> lastChunkTime s = 0 \<and> startTime s = 0 \<and> nowCalls s = 3
       | _ \<Rightarrow> False)
   \<and> createOpenAiStreamFromGrokNdjson (example_runtime (\<lambda>n. if n < 3 then 0 else 30000)) (example_opts (DEFAULTS_grok\<lparr>stream_idle_timeout := Some 5, video_idle_timeout := Some 60\<rparr>))
        (Some ([ReadValue (''video'' @ [NL])] @ [ReadNoValue]))
      = \<lparr>res_output =
           [Chunk ''grok-4-mini-thinking-tahoe'' (''<think>'' @ video_progress_text @ ''10%'' @ [NL]) None],
         res_closed = False, res_onFinish = [], res_released = False\<rparr>
   \<and> (case run_loop (example_runtime (\<lambda>n. if n < 3 then 0 else 61000)) (example_opts (DEFAULTS_grok\<lparr>stream_idle_timeout := Some 5, video_idle_timeout := Some 60\<rparr>))
             [ReadValue (''video'' @ [NL])] (initial_state (example_runtime (\<lambda>n. if n < 3 then 0 else 61000)) (example_opts (DEFAULTS_grok\<lparr>stream_idle_timeout := Some 5, video_idle_timeout := Some 60\<rparr>)) 0) of
         Pending s \<Rightarrow> isVideo s \<and> lastChunkTime s = 0 \<and> startTime s = 0 \<and> nowCalls s = 3
       | _ \<Rightarrow> False)
   \<and> createOpenAiStreamFromGrokNdjson (example_runtime (\<lambda>n. if n < 3 then 0 else 61000)) (example_opts (DEFAULTS_grok\<lparr>stream_idle_timeout := Some 5, video_idle_timeout := Some 60\<rparr>))
        (Some ([ReadValue (''video'' @ [NL])] @ ReadNoValue # []))
      = \<lparr>res_output =
           [Chunk ''grok-4-mini-thinking-tahoe'' (''<think>'' @ video_progress_text @ ''10%'' @ [NL]) None,
            Chunk ''grok-4-mini-thinking-tahoe'' [] (Some FinishStop), DoneMarker],
         res_closed = True, res_onFinish = [(200, 61)], res_released = True\<rparr>"
proof -
  let ?R30 = "example_runtime (\<lambda>n. if n < 3 then 0 else 30000)"
  let ?R61 = "example_runtime (\<lambda>n. if n < 3 then 0 else 61000)"
  let ?C = "example_opts (DEFAULTS_grok\<lparr>stream_idle_timeout := Some 5, video_idle_timeout := Some 60\<rparr>)"
  define s where "s = \<lparr>nowCalls = 3,
     enqueued = [Chunk ''grok-4-mini-thinking-tahoe'' (''<think>'' @ video_progress_text @ ''10%'' @ [NL]) None],
     controller_closed = False, onFinish_calls = [], startTime = 0,
     finalStatus = 200, lastChunkTime = 0, firstReceived = True,
     currentModel = ''grok-4-mini-thinking-tahoe'', isImage = False,
     isVideo = True, isThinking = False, thinkingFinished = False,
     videoProgressStarted = True, lastVideoProgress = 10, buffer = [],
     tagFilter = \<lparr>tags = [''xaiartifact'', ''xai:tool_usage_card''],
          inFilterTag = False, tagBuffer = [], pendingPrefix = []\<rparr>\<rparr>"
  have c30: "clock ?R30 0 = 0" and c61: "clock ?R61 0 = 0" by (simp_all add: example_runtime_def)
  have p30: "run_loop ?R30 ?C [ReadValue (''video'' @ [NL])] (initial_state ?R30 ?C (clock ?R30 0)) = Pending s"
    unfolding c30 s_def by (rule example_video_run_30)
  have p61: "run_loop ?R61 ?C [ReadValue (''video'' @ [NL])] (initial_state ?R61 ?C (clock ?R61 0)) = Pending s"
    unfolding c61 s_def by (rule example_video_run_61)
  have v: "isVideo s" by (simp add: s_def)
  have f: "lastChunkTime s = 0" "startTime s = 0" "nowCalls s = 3" by (simp_all add: s_def)
  have h30: "clock ?R30 (nowCalls s) - lastChunkTime s \<le> videoIdleTimeoutMs ?C
          \<and> clock ?R30 (nowCalls s) - lastChunkTime s \<le> chunkTimeoutMs ?C
          \<and> 0 < chunkTimeoutMs ?C
          \<and> (totalTimeoutMs ?C = 0 \<or> clock ?R30 (nowCalls s) - startTime s < totalTimeoutMs ?C)"
    by (simp add: example_video_timeouts f example_runtime_def)
  have h61: "0 < videoIdleTimeoutMs ?C
          \<and> videoIdleTimeoutMs ?C < clock ?R61 (nowCalls s) - lastChunkTime s"
    by (simp add: example_video_timeouts f example_runtime_def)
  have r30: "createOpenAiStreamFromGrokNdjson ?R30 ?C (Some ([ReadValue (''video'' @ [NL])] @ [ReadNoValue]))
      = \<lparr>res_output =
           [Chunk ''grok-4-mini-thinking-tahoe'' (''<think>'' @ video_progress_text @ ''10%'' @ [NL]) None],
         res_closed = False, res_onFinish = [], res_released = False\<rparr>"
    using mp[OF conjunct1[OF conjunct2[OF video_idle_timeout_stops_cleanly[OF p30 v]]] h30]
    by (simp add: s_def)
  have r61: "createOpenAiStreamFromGrokNdjson ?R61 ?C (Some ([ReadValue (''video'' @ [NL])] @ ReadNoValue # []))
      = \<lparr>res_output =
           [Chunk ''grok-4-mini-thinking-tahoe'' (''<think>'' @ video_progress_text @ ''10%'' @ [NL]) None,
            Chunk ''grok-4-mini-thinking-tahoe'' [] (Some FinishStop), DoneMarker],
         res_closed = True, res_onFinish = [(200, 61)], res_released = True\<rparr>"
    using mp[OF conjunct1[OF video_idle_timeout_stops_cleanly[OF p61 v, of ReadNoValue "[]"]] h61]
    by (simp add: s_def example_opts_def example_runtime_def)
  have q30: "(case run_loop ?R30 ?C [ReadValue (''video'' @ [NL])] (initial_state ?R30 ?C 0) of
         Pending s \<Rightarrow> isVideo s \<and> lastChunkTime s = 0 \<and> startTime s = 0 \<and> nowCalls s = 3
       | _ \<Rightarrow> False)"
    using p30 v f unfolding c30 by simp
  have q61: "(case run_loop ?R61 ?C [ReadValue (''video'' @ [NL])] (initial_state ?R61 ?C 0) of
         Pending s \<Rightarrow> isVideo s \<and> lastChunkTime s = 0 \<and> startTime s = 0 \<and> nowCalls s = 3
       | _ \<Rightarrow> False)"
    using p61 v f unfolding c61 by simp
  show ?thesis
    by (rule conjI[OF example_video_timeouts(1) conjI[OF example_video_timeouts(2)
          conjI[OF q30 conjI[OF r30 conjI[OF q61 r61]]]]])
qed

text \<open>
  In this scenario the body ends after the 30 seconds of silence: the stream closes
  with the stop chunk and the \<open>[DONE]\<close> marker and reports the status 200.
\<close>

lemma video_scenario_end_of_body:
  "createOpenAiStreamFromGrokNdjson (example_runtime (\<lambda>n. if n < 3 then 0 else 30000))
        (example_opts (DEFAULTS_grok\<lparr>stream_idle_timeout := Some 5, video_idle_timeout := Some 60\<rparr>))
        (Some [ReadValue (''video'' @ [NL]), ReadDone])
      = \<lparr>res_output =
           [Chunk ''grok-4-mini-thinking-tahoe'' (''<think>'' @ video_progress_text @ ''10%'' @ [NL]) None,
            Chunk ''grok-4-mini-thinking-tahoe'' [] (Some FinishStop), DoneMarker],
         res_closed = True, res_onFinish = [(200, 30)], res_released = True\<rparr>"
  by code_simp

subsection \<open>Image mode\<close>

text \<open>
  Claim C9 as stated fails for a frame that has a \<open>modelResponse\<close>: in image mode, a
  frame whose \<open>generatedImageUrls\<close> normalize to the empty list and that carries the
  token \<open>hi\<close> sends nothing; the stream ends with the stop chunk alone.
\<close>

theorem image_token_dropped_with_model_response:
  "normalizeGeneratedAssetUrls (example_runtime (\<lambda>n. 0)) (Some []) = []
   \<and> createOpenAiStreamFromGrokNdjson (example_runtime (\<lambda>n. 0)) (example_opts DEFAULTS_grok)
        (Some [ReadValue (''image'' @ [NL]), ReadDone])
      = \<lparr>res_output = [Chunk ''grok-4-mini-thinking-tahoe'' [] (Some FinishStop), DoneMarker],
         res_closed = True, res_onFinish = [(200, 0)], res_released = True\<rparr>"
  by code_simp

lemma image_branch:
  assumes "truthy_string (data_error_message data) = None"
      and "data_result_response data = Some grok"
      and "grok_streamingVideoGenerationResponse grok = None"
      and "isImage s \<or> grok_imageAttachmentInfo grok"
  shows "\<exists>s2. process_frame R C data s = image_frame R C grok s2
           \<and> enqueued s2 = enqueued s \<and> tagFilter s2 = tagFilter s"
  using assms
  by (auto simp: process_frame_def Let_def split: option.splits)

text \<open>
  Claim C9, amended. A frame that gets to the image branch (no upstream error message,
  a response object, no video response, and image mode set before or by the frame)
  and carries a string token that is not empty: when it has no \<open>modelResponse\<close>, the
  token is sent verbatim as one delta chunk and the tag filter is left untouched; when
  it has a \<open>modelResponse\<close> whose URLs normalize to the empty list, nothing is sent.
\<close>

theorem image_mode_token_without_model_response:
  assumes "truthy_string (data_error_message data) = None"
      and "data_result_response data = Some grok"
      and "grok_streamingVideoGenerationResponse grok = None"
      and "isImage s \<or> grok_imageAttachmentInfo grok"
      and "grok_token grok = Some (TokString t)"
      and "t \<noteq> []"
  shows "(grok_modelResponse grok = None \<longrightarrow>
            (\<exists>s'. process_frame R C data s = Continue s'
                 \<and> enqueued s' = enqueued s @ [Chunk (currentModel s') t None]
                 \<and> tagFilter s' = tagFilter s))
       \<and> (\<forall>m. grok_modelResponse grok = Some m
                 \<and> normalizeGeneratedAssetUrls R (modelResp_generatedImageUrls m) = [] \<longrightarrow>
            (\<exists>s'. process_frame R C data s = Continue s' \<and> enqueued s' = enqueued s))"
proof -
  obtain s2 where s2: "process_frame R C data s = image_frame R C grok s2"
      "enqueued s2 = enqueued s" "tagFilter s2 = tagFilter s"
    using image_branch[OF assms(1-4)] by blast
  show ?thesis
    unfolding s2(1) using assms(5,6) s2(2,3)
    by (auto simp: image_frame_def Let_def makeChunk_def)
qed

theorem image_mode_token_without_model_response_witness:
  "(\<exists>s'. process_frame (example_runtime (\<lambda>n. 0)) (example_opts DEFAULTS_grok)
            \<lparr>data_error_message = None,
              data_result_response = Some (no_response\<lparr>grok_imageAttachmentInfo := True,
                 grok_token := Some (TokString ''<xaiartifact>x</xaiartifact>'')\<rparr>)\<rparr>
            (initial_state (example_runtime (\<lambda>n. 0)) (example_opts DEFAULTS_grok) 0) = Continue s'
        \<and> enqueued s' = [Chunk (currentModel s') ''<xaiartifact>x</xaiartifact>'' None]
        \<and> tagFilter s' = TagFilter_new [''xaiartifact'', ''xai:tool_usage_card''])
   \<and> snd (TagFilter_filter (TagFilter_new [''xaiartifact'', ''xai:tool_usage_card''])
          ''<xaiartifact>x</xaiartifact>'') = []"
proof -
  let ?grok = "no_response\<lparr>grok_imageAttachmentInfo := True,
                 grok_token := Some (TokString ''<xaiartifact>x</xaiartifact>'')\<rparr>"
  let ?data = "\<lparr>data_error_message = None, data_result_response = Some ?grok\<rparr>"
  let ?s = "initial_state (example_runtime (\<lambda>n. 0)) (example_opts DEFAULTS_grok) 0"
  have h1: "truthy_string (data_error_message ?data) = None" by (simp add: truthy_string_def)
  have h2: "data_result_response ?data = Some ?grok" by simp
  have h3: "grok_streamingVideoGenerationResponse ?grok = None" by (simp add: no_response_def)
  have h4: "isImage ?s \<or> grok_imageAttachmentInfo ?grok" by simp
  have h5: "grok_token ?grok = Some (TokString ''<xaiartifact>x</xaiartifact>'')" by simp
  have h6: "''<xaiartifact>x</xaiartifact>'' \<noteq> []" by simp
  have n: "grok_modelResponse ?grok = None" by (simp add: no_response_def)
  have tf: "tagFilter ?s = TagFilter_new [''xaiartifact'', ''xai:tool_usage_card'']"
    "enqueued ?s = []"
    by (simp_all add: initial_state_def example_opts_def) code_simp
  have a: "\<exists>s'. process_frame (example_runtime (\<lambda>n. 0)) (example_opts DEFAULTS_grok) ?data ?s = Continue s'
        \<and> enqueued s' = [Chunk (currentModel s') ''<xaiartifact>x</xaiartifact>'' None]
        \<and> tagFilter s' = TagFilter_new [''xaiartifact'', ''xai:tool_usage_card'']"
    using mp[OF conjunct1[OF image_mode_token_without_model_response[OF h1 h2 h3 h4 h5 h6,
        where R = "example_runtime (\<lambda>n. 0)" and C = "example_opts DEFAULTS_grok"]] n]
    unfolding tf by simp
  have b: "snd (TagFilter_filter (TagFilter_new [''xaiartifact'', ''xai:tool_usage_card''])
          ''<xaiartifact>x</xaiartifact>'') = []"
    by code_simp
  show ?thesis by (rule conjI[OF a b])
qed

subsection \<open>Thinking then answer\<close>

lemma quiet_deadlines:
  assumes "firstTimeoutMs C = 30000" "chunkTimeoutMs C = 120000" "totalTimeoutMs C = 600000"
      and "idleTimeoutMs C = 45000" "videoIdleTimeoutMs C = 90000"
      and "startTime s \<le> now" "now \<le> startTime s + 30000"
      and "startTime s \<le> lastChunkTime s"
  shows "check_deadlines C s now = ReadFor (if firstReceived s then 120000 else 30000)"
  using assms by (simp add: check_deadlines_def Let_def)

lemma split_one_line:
  "NL \<notin> set l \<Longrightarrow> split_lines (l @ [NL]) cur = ([cur @ l], [])"
  by (induction l arbitrary: cur) auto

lemma filter_plain_char:
  assumes "pendingPrefix tf = []" and "\<not> inFilterTag tf" and "c \<noteq> CHR ''<''"
  shows "TagFilter_filter tf [c] = (tf, [c])"
  using assms by (simp add: TagFilter_filter_def filter_char_def)

lemma same_tagFilter [simp]: "s\<lparr>tagFilter := tagFilter s\<rparr> = s"
  by simp

lemma text_frame_token:
  assumes "pendingPrefix (tagFilter s) = []" and "\<not> inFilterTag (tagFilter s)"
      and "c \<noteq> CHR ''<''" and "\<not> (thinkingFinished s \<and> th)"
  shows "text_frame C (no_response\<lparr>grok_isThinking := th, grok_token := Some (TokString [c])\<rparr>) s
           = bracket_thinking th (showThinking_of (opt_settings C)) [c] s"
  using assms
  by (auto simp: text_frame_def filter_plain_char no_response_def append_search_results_def)

lemma token_line:
  assumes "str_trim R l \<noteq> []" and "json_parse R (str_trim R l) = Some (token_frame th [c])"
      and "c \<noteq> CHR ''<''" and "\<not> isImage s"
      and "pendingPrefix (tagFilter s) = []" and "\<not> inFilterTag (tagFilter s)"
      and "\<not> (thinkingFinished s \<and> th)"
  shows "process_lines R C [l] s =
           Continue (bracket_thinking th (showThinking_of (opt_settings C)) [c]
             (s\<lparr>firstReceived := True, nowCalls := Suc (nowCalls s),
                lastChunkTime := clock R (nowCalls s)\<rparr>))"
proof -
  let ?s1 = "s\<lparr>firstReceived := True, nowCalls := Suc (nowCalls s), lastChunkTime := clock R (nowCalls s)\<rparr>"
  have "process_frame R C (token_frame th [c]) ?s1 =
      Continue (text_frame C (no_response\<lparr>grok_isThinking := th, grok_token := Some (TokString [c])\<rparr>) ?s1)"
    using assms(4)
    by (simp add: process_frame_def token_frame_def truthy_string_def no_response_def)
  also have "\<dots> = Continue (bracket_thinking th (showThinking_of (opt_settings C)) [c] ?s1)"
    using assms(3,5,6,7) by (simp add: text_frame_token)
  finally show ?thesis
    using assms(1,2) by (simp add: date_now_def)
qed

lemma calm_bracket:
  "calm R (bracket_thinking th st content s) = calm R s"
  by (simp add: bracket_thinking_def calm_def)

lemma token_round:
  assumes C: "firstTimeoutMs C = 30000" "chunkTimeoutMs C = 120000" "totalTimeoutMs C = 600000"
         "idleTimeoutMs C = 45000" "videoIdleTimeoutMs C = 90000"
      and clk: "\<And>n. clock R 0 \<le> clock R n \<and> clock R n \<le> clock R 0 + 30000"
      and s: "calm R s" "\<not> (thinkingFinished s \<and> th)"
      and l: "NL \<notin> set l" "str_trim R l \<noteq> []" "json_parse R (str_trim R l) = Some (token_frame th [c])"
         "c \<noteq> CHR ''<''"
  shows "run_loop R C (ReadValue (l @ [NL]) # rest) s = run_loop R C rest (after_token_line R C th c s)
         \<and> calm R (after_token_line R C th c s)"
proof -
  let ?s1 = "s\<lparr>nowCalls := Suc (nowCalls s)\<rparr>"
  have st: "startTime s = clock R 0" "buffer s = []" "\<not> isImage s"
    "pendingPrefix (tagFilter s) = []" "\<not> inFilterTag (tagFilter s)"
    using s(1) by (simp_all add: calm_def)
  obtain k where k: "lastChunkTime s = clock R k" using s(1) by (auto simp: calm_def)
  have d: "check_deadlines C ?s1 (clock R (nowCalls s)) = ReadFor (if firstReceived ?s1 then 120000 else 30000)"
    by (rule quiet_deadlines[OF C]) (use clk[of "nowCalls s"] clk[of k] st(1) k in simp_all)
  have e: "(?s1\<lparr>buffer := []\<rparr>)\<lparr>firstReceived := True,
              nowCalls := Suc (nowCalls (?s1\<lparr>buffer := []\<rparr>)),
              lastChunkTime := clock R (nowCalls (?s1\<lparr>buffer := []\<rparr>))\<rparr>
           = s\<lparr>nowCalls := Suc (Suc (nowCalls s)), buffer := [], firstReceived := True,
               lastChunkTime := clock R (Suc (nowCalls s))\<rparr>"
    by (cases s) simp
  have pl: "process_lines R C [l] (?s1\<lparr>buffer := []\<rparr>) = Continue (after_token_line R C th c s)"
    unfolding after_token_line_def e[symmetric]
    by (rule token_line[OF l(2,3,4)]) (use st s(2) in simp_all)
  have "run_loop R C (ReadValue (l @ [NL]) # rest) s = run_loop R C rest (after_token_line R C th c s)"
    using d pl by (simp add: date_now_def st(2) split_one_line[OF l(1)])
  moreover have "calm R (after_token_line R C th c s)"
    unfolding after_token_line_def calm_bracket using s(1) by (auto simp: calm_def)
  ultimately show ?thesis by simp
qed

lemma done_round:
  assumes C: "firstTimeoutMs C = 30000" "chunkTimeoutMs C = 120000" "totalTimeoutMs C = 600000"
         "idleTimeoutMs C = 45000" "videoIdleTimeoutMs C = 90000"
      and clk: "\<And>n. clock R 0 \<le> clock R n \<and> clock R n \<le> clock R 0 + 30000"
      and s: "calm R s"
  shows "run_loop R C (ReadDone # rest) s = Broke (s\<lparr>nowCalls := Suc (nowCalls s)\<rparr>)"
proof -
  let ?s1 = "s\<lparr>nowCalls := Suc (nowCalls s)\<rparr>"
  have st: "startTime s = clock R 0" using s by (simp add: calm_def)
  obtain k where k: "lastChunkTime s = clock R k" using s by (auto simp: calm_def)
  have d: "check_deadlines C ?s1 (clock R (nowCalls s)) = ReadFor (if firstReceived ?s1 then 120000 else 30000)"
    by (rule quiet_deadlines[OF C]) (use clk[of "nowCalls s"] clk[of k] st k in simp_all)
  show ?thesis using d by (simp add: date_now_def)
qed


lemma after_token_line_fields:
  "isThinking (after_token_line R C th c s) = th"
  "thinkingFinished (after_token_line R C th c s) = (thinkingFinished s \<or> (isThinking s \<and> \<not> th))"
  "currentModel (after_token_line R C th c s) = currentModel s"
  "enqueued (after_token_line R C th c s) =
     enqueued s @
       (if \<not> isThinking s \<and> th then
          (if showThinking_of (opt_settings C)
           then [Chunk (currentModel s) (''<think>'' @ [NL] @ [c]) None] else [])
        else if isThinking s \<and> \<not> th then
          [Chunk (currentModel s)
             (if showThinking_of (opt_settings C) then [NL] @ ''</think>'' @ [NL] @ [c] else [c]) None]
        else if th \<and> \<not> showThinking_of (opt_settings C) then []
        else [Chunk (currentModel s) [c] None])"
  by (auto simp: after_token_line_def bracket_thinking_def makeChunk_def)

lemma after_loop_output:
  "res_output (result_of rel (after_loop R C s)) =
     enqueued s @ [Chunk (currentModel s) [] (Some FinishStop), DoneMarker]"
  by (simp add: result_of_def after_loop_def call_onFinish_def date_now_def controller_close_def
      makeChunk_def makeDone_def)

text \<open>
  Claim C2. The three frames \<open>{isThinking:true, token:"A"}\<close>, \<open>{isThinking:true,
  token:"B"}\<close>, \<open>{isThinking:false, token:"C"}\<close> arrive as three lines, then the body
  ends. The timeouts are the default ones and the whole run takes at most 30 seconds;
  the filter tags are arbitrary. With \<open>show_thinking\<close> true the delta contents
  concatenate to \<open><think>\n AB \n</think>\n C\<close> (without the blanks), with \<open>show_thinking\<close> false to
  \<open>C\<close>; the chunks are listed in full.
\<close>

theorem thinking_then_answer:
  assumes cfg: "opt_settings C = DEFAULTS_grok\<lparr>show_thinking := Some st, filtered_tags := ft\<rparr>"
      and clk: "\<forall>n. clock R 0 \<le> clock R n \<and> clock R n \<le> clock R 0 + 30000"
      and lA: "NL \<notin> set lA" "str_trim R lA \<noteq> []" "json_parse R (str_trim R lA) = Some (token_frame True ''A'')"
      and lB: "NL \<notin> set lB" "str_trim R lB \<noteq> []" "json_parse R (str_trim R lB) = Some (token_frame True ''B'')"
      and lC: "NL \<notin> set lC" "str_trim R lC \<noteq> []" "json_parse R (str_trim R lC) = Some (token_frame False ''C'')"
  shows "res_output (createOpenAiStreamFromGrokNdjson R C
            (Some [ReadValue (lA @ [NL]), ReadValue (lB @ [NL]), ReadValue (lC @ [NL]), ReadDone]))
         = (if st
            then [Chunk ''grok-4-mini-thinking-tahoe'' (''<think>'' @ [NL] @ ''A'') None,
                  Chunk ''grok-4-mini-thinking-tahoe'' ''B'' None,
                  Chunk ''grok-4-mini-thinking-tahoe'' ([NL] @ ''</think>'' @ [NL] @ ''C'') None,
                  Chunk ''grok-4-mini-thinking-tahoe'' [] (Some FinishStop), DoneMarker]
            else [Chunk ''grok-4-mini-thinking-tahoe'' ''C'' None,
                  Chunk ''grok-4-mini-thinking-tahoe'' [] (Some FinishStop), DoneMarker])
       \<and> delta_contents (res_output (createOpenAiStreamFromGrokNdjson R C
            (Some [ReadValue (lA @ [NL]), ReadValue (lB @ [NL]), ReadValue (lC @ [NL]), ReadDone])))
         = (if st then ''<think>'' @ [NL] @ ''AB'' @ [NL] @ ''</think>'' @ [NL] @ ''C'' else ''C'')"
proof -
  have T: "firstTimeoutMs C = 30000" "chunkTimeoutMs C = 120000" "totalTimeoutMs C = 600000"
         "idleTimeoutMs C = 45000" "videoIdleTimeoutMs C = 90000"
    by (simp_all add: firstTimeoutMs_def chunkTimeoutMs_def totalTimeoutMs_def idleTimeoutMs_def
        videoIdleTimeoutMs_def cfg DEFAULTS_grok_def seconds_to_ms_def)
  have sh: "showThinking_of (opt_settings C) = st"
    by (simp add: showThinking_of_def cfg)
  have K: "\<And>n. clock R 0 \<le> clock R n \<and> clock R n \<le> clock R 0 + 30000"
    using clk by blast
  define s0 where "s0 = initial_state R C (clock R 0)"
  define sA where "sA = after_token_line R C True CHR ''A'' s0"
  define sB where "sB = after_token_line R C True CHR ''B'' sA"
  define sC where "sC = after_token_line R C False CHR ''C'' sB"
  have c0: "calm R s0"
    unfolding calm_def s0_def
    by (auto simp: initial_state_def TagFilter_new_def intro: exI[of _ 0])
  have f0: "isThinking s0 = False" "thinkingFinished s0 = False" "enqueued s0 = []"
    "currentModel s0 = ''grok-4-mini-thinking-tahoe''"
    by (simp_all add: s0_def initial_state_def)
  have rA: "run_loop R C (ReadValue (lA @ [NL]) # [ReadValue (lB @ [NL]), ReadValue (lC @ [NL]), ReadDone]) s0
              = run_loop R C [ReadValue (lB @ [NL]), ReadValue (lC @ [NL]), ReadDone] sA \<and> calm R sA"
    unfolding sA_def by (rule token_round[OF T K c0 _ lA]) (simp_all add: f0)
  have fA: "isThinking sA = True" "thinkingFinished sA = False"
    "currentModel sA = ''grok-4-mini-thinking-tahoe''"
    "enqueued sA = (if st then [Chunk ''grok-4-mini-thinking-tahoe'' (''<think>'' @ [NL] @ ''A'') None] else [])"
    unfolding sA_def after_token_line_fields by (simp_all add: f0 sh)
  have rB: "run_loop R C (ReadValue (lB @ [NL]) # [ReadValue (lC @ [NL]), ReadDone]) sA
              = run_loop R C [ReadValue (lC @ [NL]), ReadDone] sB \<and> calm R sB"
    unfolding sB_def by (rule token_round[OF T K conjunct2[OF rA] _ lB]) (simp_all add: fA)
  have fB: "isThinking sB = True" "thinkingFinished sB = False"
    "currentModel sB = ''grok-4-mini-thinking-tahoe''"
    "enqueued sB = enqueued sA @ (if st then [Chunk ''grok-4-mini-thinking-tahoe'' ''B'' None] else [])"
    unfolding sB_def after_token_line_fields by (simp_all add: fA(1,2,3) sh)
  have rC: "run_loop R C (ReadValue (lC @ [NL]) # [ReadDone]) sB
              = run_loop R C [ReadDone] sC \<and> calm R sC"
    unfolding sC_def by (rule token_round[OF T K conjunct2[OF rB] _ lC]) simp_all
  have fC: "currentModel sC = ''grok-4-mini-thinking-tahoe''"
    "enqueued sC = enqueued sB @
       [Chunk ''grok-4-mini-thinking-tahoe'' (if st then [NL] @ ''</think>'' @ [NL] @ ''C'' else ''C'') None]"
    unfolding sC_def after_token_line_fields by (simp_all add: fB(1,2,3) sh)
  have rD: "run_loop R C [ReadDone] sC = Broke (sC\<lparr>nowCalls := Suc (nowCalls sC)\<rparr>)"
    by (rule done_round[OF T K conjunct2[OF rC]])
  have run: "run_loop R C [ReadValue (lA @ [NL]), ReadValue (lB @ [NL]), ReadValue (lC @ [NL]), ReadDone]
               (initial_state R C (clock R 0)) = Broke (sC\<lparr>nowCalls := Suc (nowCalls sC)\<rparr>)"
    using conjunct1[OF rA] conjunct1[OF rB] conjunct1[OF rC] rD unfolding s0_def by simp
  have out: "res_output (createOpenAiStreamFromGrokNdjson R C
            (Some [ReadValue (lA @ [NL]), ReadValue (lB @ [NL]), ReadValue (lC @ [NL]), ReadDone]))
         = enqueued sC @ [Chunk ''grok-4-mini-thinking-tahoe'' [] (Some FinishStop), DoneMarker]"
    unfolding createOpenAiStreamFromGrokNdjson_def option.case run loop_exit.case after_loop_output
    by (simp add: fC(1))
  show ?thesis
    unfolding out fC(2) fB(4) fA(4)
    by (simp add: delta_contents_def)
qed

lemma example_lines:
  "NL \<notin> set ''frame A''" "ascii_trim ''frame A'' = ''frame A''"
  "NL \<notin> set ''frame B''" "ascii_trim ''frame B'' = ''frame B''"
  "NL \<notin> set ''frame C''" "ascii_trim ''frame C'' = ''frame C''"
  by (simp_all add: NL_def ascii_trim_def is_space_def)

theorem thinking_then_answer_witness:
  "json_parse (example_runtime (\<lambda>n. if n < 100 then int n * 10 else 1000))
       (str_trim (example_runtime (\<lambda>n. if n < 100 then int n * 10 else 1000)) ''frame A'')
     = Some (token_frame True ''A'')
   \<and> delta_contents (res_output (createOpenAiStreamFromGrokNdjson
        (example_runtime (\<lambda>n. if n < 100 then int n * 10 else 1000))
        (example_opts (DEFAULTS_grok\<lparr>show_thinking := Some True, filtered_tags := Some ''xaiartifact''\<rparr>))
        (Some [ReadValue (''frame A'' @ [NL]), ReadValue (''frame B'' @ [NL]),
               ReadValue (''frame C'' @ [NL]), ReadDone])))
      = ''<think>'' @ [NL] @ ''AB'' @ [NL] @ ''</think>'' @ [NL] @ ''C''
   \<and> delta_contents (res_output (createOpenAiStreamFromGrokNdjson
        (example_runtime (\<lambda>n. if n < 100 then int n * 10 else 1000))
        (example_opts (DEFAULTS_grok\<lparr>show_thinking := Some False, filtered_tags := Some ''xaiartifact''\<rparr>))
        (Some [ReadValue (''frame A'' @ [NL]), ReadValue (''frame B'' @ [NL]),
               ReadValue (''frame C'' @ [NL]), ReadDone])))
      = ''C''"
proof -
  let ?R = "example_runtime (\<lambda>n. if n < 100 then int n * 10 else 1000)"
  have clk: "\<forall>n. clock ?R 0 \<le> clock ?R n \<and> clock ?R n \<le> clock ?R 0 + 30000"
    by (simp add: example_runtime_def)
  have tr: "str_trim ?R = ascii_trim"
    by (simp add: example_runtime_def)
  have pA: "json_parse ?R (str_trim ?R ''frame A'') = Some (token_frame True ''A'')"
    and pB: "json_parse ?R (str_trim ?R ''frame B'') = Some (token_frame True ''B'')"
    and pC: "json_parse ?R (str_trim ?R ''frame C'') = Some (token_frame False ''C'')"
    unfolding tr by (simp_all add: example_lines example_runtime_def example_parse_def)
  have ne: "str_trim ?R ''frame A'' \<noteq> []" "str_trim ?R ''frame B'' \<noteq> []"
    "str_trim ?R ''frame C'' \<noteq> []"
    unfolding tr by (simp_all add: example_lines)
  have cfg: "\<And>st. opt_settings (example_opts (DEFAULTS_grok\<lparr>show_thinking := Some st, filtered_tags := Some ''xaiartifact''\<rparr>))
      = DEFAULTS_grok\<lparr>show_thinking := Some st, filtered_tags := Some ''xaiartifact''\<rparr>"
    by (simp add: example_opts_def)
  note th = thinking_then_answer[OF cfg clk example_lines(1) ne(1) pA example_lines(3) ne(2) pB
      example_lines(5) ne(3) pC]
  have t: "delta_contents (res_output (createOpenAiStreamFromGrokNdjson ?R
        (example_opts (DEFAULTS_grok\<lparr>show_thinking := Some True, filtered_tags := Some ''xaiartifact''\<rparr>))
        (Some [ReadValue (''frame A'' @ [NL]), ReadValue (''frame B'' @ [NL]),
               ReadValue (''frame C'' @ [NL]), ReadDone])))
      = ''<think>'' @ [NL] @ ''AB'' @ [NL] @ ''</think>'' @ [NL] @ ''C''"
    using conjunct2[OF th[of True]] by simp
  have f: "delta_contents (res_output (createOpenAiStreamFromGrokNdjson ?R
        (example_opts (DEFAULTS_grok\<lparr>show_thinking := Some False, filtered_tags := Some ''xaiartifact''\<rparr>))
        (Some [ReadValue (''frame A'' @ [NL]), ReadValue (''frame B'' @ [NL]),
               ReadValue (''frame C'' @ [NL]), ReadDone])))
      = ''C''"
    using conjunct2[OF th[of False]] by simp
  show ?thesis
    by (rule conjI[OF pA conjI[OF t f]])
qed

end
